theory Spec2Isabelle
  imports Complex_Main
begin

section \<open>Tensors, errors and model parameters\<close>

text \<open>
  The pointer-generator network of \<^verbatim>\<open>src/summarus/pgn.py\<close> works on batched tensors.
  An integer (\<^verbatim>\<open>long\<close>) tensor of shape (batch, length) is a list of rows of
  \<^typ>\<open>int\<close>; a runtime failure of torch or Python is a value of \<open>error\<close>
  on the left of a sum.
\<close>

datatype error = RuntimeError | IndexError | KeyError | AttributeError | TypeError | AssertionError

type_synonym long_tensor = "int list list"

text \<open>The fields of \<^verbatim>\<open>PointerGeneratorNetwork.__init__\<close> that the modelled methods read.\<close>

record pgn =
  start_index :: int
  end_index :: int
  target_unk_index :: int
  target_vocab_size :: int
  max_decoding_steps :: int
  use_coverage :: bool
  coverage_loss_weight :: "real option"
  scheduled_sampling_ratio :: real
  training :: bool
  eps :: real

fun traverse :: "('a \<Rightarrow> error + 'b) \<Rightarrow> 'a list \<Rightarrow> error + 'b list" where
  "traverse f [] = Inr []"
| "traverse f (x # xs) =
     (case f x of
        Inl e \<Rightarrow> Inl e
      | Inr y \<Rightarrow> (case traverse f xs of Inl e \<Rightarrow> Inl e | Inr ys \<Rightarrow> Inr (y # ys)))"

text \<open>\<^verbatim>\<open>torch.max(t)\<close> of all entries; it raises on a tensor without entries.\<close>

definition tensor_max :: "int list \<Rightarrow> error + int" where
  "tensor_max xs = (case xs of [] \<Rightarrow> Inl RuntimeError | y # ys \<Rightarrow> Inr (fold max ys y))"

text \<open>
  A list of rows is a tensor of shape (b, w). \<^verbatim>\<open>t.size(1)\<close> is read off the first
  row; a tensor without rows has no entries whatever its width, and every path of
  \<^verbatim>\<open>_prepare\<close> takes \<^verbatim>\<open>torch.max\<close> of a tensor without entries then.
\<close>

definition width :: "'a list list \<Rightarrow> nat" where
  "width xss = (case xss of [] \<Rightarrow> 0 | xs # _ \<Rightarrow> length xs)"

definition has_shape :: "nat \<Rightarrow> nat \<Rightarrow> 'a list list \<Rightarrow> bool" where
  "has_shape b w xss = (length xss = b \<and> list_all (\<lambda>xs. length xs = w) xss)"

section \<open>The extended-vocabulary builder: \<^verbatim>\<open>_prepare\<close>\<close>

text \<open>
  \<^verbatim>\<open>torch.unique(x, return_inverse=True, sorted=True)[1]\<close>: every entry is replaced
  by its position in the ascending list of the distinct entries.
\<close>

definition unique_sorted :: "int list \<Rightarrow> int list" where
  "unique_sorted xs = sort (remdups xs)"

fun index_of :: "'a list \<Rightarrow> 'a \<Rightarrow> nat" where
  "index_of [] x = 0"
| "index_of (y # ys) x = (if x = y then 0 else Suc (index_of ys x))"

definition unique_inverse :: "int list \<Rightarrow> int list" where
  "unique_inverse xs = map (\<lambda>x. int (index_of (unique_sorted xs) x)) xs"

text \<open>Lines 114 and 115: \<^verbatim>\<open>is_unk = torch.eq(tokens, unk).long()\<close> and
  \<^verbatim>\<open>unk_only = token_ids * is_unk\<close>, for one row.\<close>

definition is_unk_row :: "pgn \<Rightarrow> int list \<Rightarrow> int list" where
  "is_unk_row m tokens = map (\<lambda>t. if t = target_unk_index m then 1 else 0) tokens"

definition unk_only_row :: "pgn \<Rightarrow> int list \<Rightarrow> int list \<Rightarrow> int list" where
  "unk_only_row m tokens token_ids = map2 (*) token_ids (is_unk_row m tokens)"

text \<open>Lines 119 and 120: the row of \<^verbatim>\<open>unk_token_nums\<close>.\<close>

definition unk_token_nums_row :: "pgn \<Rightarrow> int list \<Rightarrow> int list \<Rightarrow> int list" where
  "unk_token_nums_row m tokens token_ids = unique_inverse (unk_only_row m tokens token_ids)"

text \<open>Line 122:
  \<^verbatim>\<open>tokens - tokens * is_unk + (self._target_vocab_size - 1) * is_unk + unk_token_nums\<close>.\<close>

definition rewrite_row :: "pgn \<Rightarrow> int list \<Rightarrow> int list \<Rightarrow> int list" where
  "rewrite_row m tokens token_ids =
     map (\<lambda>(t, u, n). t - t * u + (target_vocab_size m - 1) * u + n)
       (zip tokens (zip (is_unk_row m tokens) (unk_token_nums_row m tokens token_ids)))"

text \<open>Lines 128 to 132, the body of the loop over the examples of a training batch.\<close>

definition collapse_row :: "pgn \<Rightarrow> nat \<Rightarrow> int list \<Rightarrow> error + int list" where
  "collapse_row m source_max_length row =
     (case tensor_max (take source_max_length row) of
        Inl e \<Rightarrow> Inl e
      | Inr max_source \<Rightarrow>
          let max_source_num = max (target_vocab_size m - 1) max_source;
              unk_target_tokens_mask = map (\<lambda>t. if t > max_source_num then 1 else 0) row;
              zero_target_unk = map2 (\<lambda>t k. t - t * k) row unk_target_tokens_mask
          in Inr (map2 (\<lambda>z k. z + target_unk_index m * k) zero_target_unk unk_target_tokens_mask))"

text \<open>
  Lines 108 to 112: the concatenation of source and target along dimension 1.
  \<^verbatim>\<open>target_token_ids.long()\<close> on \<^verbatim>\<open>None\<close> is an attribute error; tensors whose
  shapes do not fit are a runtime error of torch.
\<close>

definition cat_inputs ::
  "long_tensor \<Rightarrow> long_tensor \<Rightarrow> long_tensor option \<Rightarrow> long_tensor option
     \<Rightarrow> error + (long_tensor \<times> long_tensor)" where
  "cat_inputs source_tokens source_token_ids target_tokens target_token_ids =
     (let b = length source_tokens; s = width source_tokens in
      if \<not> (has_shape b s source_tokens \<and> has_shape b s source_token_ids) then Inl RuntimeError
      else case target_tokens of
        None \<Rightarrow> Inr (source_tokens, source_token_ids)
      | Some tt \<Rightarrow>
          (case target_token_ids of
             None \<Rightarrow> Inl AttributeError
           | Some ti \<Rightarrow>
               let t = width tt in
               if has_shape b t tt \<and> has_shape b t ti
               then Inr (map2 (@) source_tokens tt, map2 (@) source_token_ids ti)
               else Inl RuntimeError))"

text \<open>
  \<^verbatim>\<open>_prepare\<close>. The result is \<^verbatim>\<open>(extra_zeros, modified_source_tokens,
  modified_target_tokens)\<close>; the last is \<^verbatim>\<open>None\<close> without targets.
\<close>

definition prepare ::
  "pgn \<Rightarrow> long_tensor \<Rightarrow> long_tensor \<Rightarrow> long_tensor option \<Rightarrow> long_tensor option
     \<Rightarrow> error + (real list list \<times> long_tensor \<times> long_tensor option)" where
  "prepare m source_tokens source_token_ids target_tokens target_token_ids =
     (let batch_size = length source_tokens;
          source_max_length = width source_tokens
      in case cat_inputs source_tokens source_token_ids target_tokens target_token_ids of
        Inl e \<Rightarrow> Inl e
      | Inr (tokens0, token_ids) \<Rightarrow>
          let unk_token_nums = map2 (unk_token_nums_row m) tokens0 token_ids;
              tokens1 = map2 (rewrite_row m) tokens0 token_ids
          in case (if target_tokens = None then Inr tokens1
                   else traverse (collapse_row m source_max_length) tokens1) of
               Inl e \<Rightarrow> Inl e
             | Inr tokens \<Rightarrow>
                 (case tensor_max (concat (map (take source_max_length) unk_token_nums)) of
                    Inl e \<Rightarrow> Inl e
                  | Inr source_unk_count \<Rightarrow>
                      Inr (replicate batch_size (replicate (nat source_unk_count) 0),
                           map (take source_max_length) tokens,
                           if target_tokens = None then None
                           else Some (map (drop source_max_length) tokens))))"

subsection \<open>Notions used to state the properties of \<^verbatim>\<open>_prepare\<close>\<close>

text \<open>
  Row i of the concatenated tensors \<^verbatim>\<open>tokens\<close> and \<^verbatim>\<open>token_ids\<close> of lines 108 to
  112 (source, then target when there is one), and the identities at the unknown positions of
  a row.
\<close>

definition example_tokens :: "long_tensor \<Rightarrow> long_tensor option \<Rightarrow> nat \<Rightarrow> int list" where
  "example_tokens source_tokens target_tokens i =
     source_tokens ! i @ (case target_tokens of None \<Rightarrow> [] | Some tt \<Rightarrow> tt ! i)"

definition example_token_ids ::
  "long_tensor \<Rightarrow> long_tensor option \<Rightarrow> long_tensor option \<Rightarrow> nat \<Rightarrow> int list" where
  "example_token_ids source_token_ids target_tokens target_token_ids i =
     source_token_ids ! i @
       (case target_tokens of
          None \<Rightarrow> []
        | Some _ \<Rightarrow> (case target_token_ids of None \<Rightarrow> [] | Some ti \<Rightarrow> ti ! i))"



text \<open>The row of an example after the loop of lines 127 to 132, written as one map.\<close>

definition final_row :: "pgn \<Rightarrow> nat \<Rightarrow> bool \<Rightarrow> int list \<Rightarrow> int list" where
  "final_row m s with_target row =
     (if with_target
      then map (\<lambda>t. if t > max (target_vocab_size m - 1) (Max (set (take s row)))
                     then target_unk_index m else t) row
      else row)"


text \<open>
  The scenario of the specification: source "the zorblax ran", target "zorblax ran fast", in a
  vocabulary of ten entries with padding 0, unknown 1, start 2, end 3, "the" 5 and "ran" 6.
  The identities number the words of source and target in order of first occurrence.
\<close>

definition scenario_model :: pgn where
  "scenario_model = \<lparr>start_index = 2, end_index = 3, target_unk_index = 1, target_vocab_size = 10,
     max_decoding_steps = 5, use_coverage = False, coverage_loss_weight = None,
     scheduled_sampling_ratio = 0, training = True, eps = 1 / 10 ^ 31\<rparr>"

text \<open>
  The extended index as the specification words it: the rank of the identity among the unique
  out-of-vocabulary identities in order of first occurrence, added to the vocabulary size less
  one.
\<close>

fun first_occurrences :: "'a list \<Rightarrow> 'a list" where
  "first_occurrences [] = []"
| "first_occurrences (x # xs) = x # filter (\<lambda>y. y \<noteq> x) (first_occurrences xs)"



section \<open>\<^verbatim>\<open>_prepare\<close> on a store of tensors\<close>

text \<open>
  The tensors that \<^verbatim>\<open>_prepare\<close> receives are objects shared with its caller, and two of its
  statements write into a tensor in place: \<^verbatim>\<open>unk_token_nums[i, :] = unique\<close> (line 120) and
  \<^verbatim>\<open>tokens[i, :] = ...\<close> (line 132). Here the tensors live in a store from addresses to
  values, a variable of the method holds an address, an expression that builds a tensor
  allocates a fresh address, and the two assignments update the store at the address that the
  variable holds at that point. The method returns its result and the store it leaves.
\<close>

type_synonym addr = nat

record heap =
  cells :: "addr \<Rightarrow> long_tensor option"
  next_addr :: addr

definition alloc :: "heap \<Rightarrow> long_tensor \<Rightarrow> addr \<times> heap" where
  "alloc h t = (next_addr h, h\<lparr>cells := (cells h)(next_addr h \<mapsto> t), next_addr := Suc (next_addr h)\<rparr>)"

text \<open>A variable always holds the address of a tensor; the empty tensor stands for a read at
  an address that was never allocated.\<close>

definition load :: "heap \<Rightarrow> addr \<Rightarrow> long_tensor" where
  "load h a = (case cells h a of None \<Rightarrow> [] | Some t \<Rightarrow> t)"

text \<open>\<^verbatim>\<open>t[i, :] = row\<close>.\<close>

definition store_row :: "heap \<Rightarrow> addr \<Rightarrow> nat \<Rightarrow> int list \<Rightarrow> heap" where
  "store_row h a i row = h\<lparr>cells := (cells h)(a \<mapsto> (load h a)[i := row])\<rparr>"

text \<open>Line 122 for one row, with the row of \<^verbatim>\<open>unk_token_nums\<close> read from the store.\<close>

definition rewrite_with :: "pgn \<Rightarrow> int list \<Rightarrow> int list \<Rightarrow> int list" where
  "rewrite_with m tokens nums =
     map (\<lambda>(t, u, n). t - t * u + (target_vocab_size m - 1) * u + n)
       (zip tokens (zip (is_unk_row m tokens) nums))"

text \<open>Lines 118 to 120: the loop that fills \<^verbatim>\<open>unk_token_nums\<close> row by row.\<close>

fun fill_unk_token_nums :: "addr \<Rightarrow> long_tensor \<Rightarrow> nat list \<Rightarrow> heap \<Rightarrow> heap" where
  "fill_unk_token_nums unk_token_nums unk_only [] h = h"
| "fill_unk_token_nums unk_token_nums unk_only (i # rest) h =
     fill_unk_token_nums unk_token_nums unk_only rest
       (store_row h unk_token_nums i (unique_inverse (unk_only ! i)))"

text \<open>Lines 127 to 132: the loop that collapses the rows of \<^verbatim>\<open>tokens\<close> in place. It stops
  at the first row whose source span has no entry.\<close>

fun collapse_loop :: "pgn \<Rightarrow> nat \<Rightarrow> addr \<Rightarrow> nat list \<Rightarrow> heap \<Rightarrow> error option \<times> heap" where
  "collapse_loop m source_max_length tokens [] h = (None, h)"
| "collapse_loop m source_max_length tokens (i # rest) h =
     (case collapse_row m source_max_length (load h tokens ! i) of
        Inl e \<Rightarrow> (Some e, h)
      | Inr row \<Rightarrow> collapse_loop m source_max_length tokens rest (store_row h tokens i row))"

text \<open>
  Lines 114 to 138 on the store, from the addresses that the variables \<^verbatim>\<open>tokens\<close> and
  \<^verbatim>\<open>token_ids\<close> hold at line 114. Line 122 gives \<^verbatim>\<open>tokens\<close> the address of a new
  tensor, into which the loop of lines 127 to 132 writes.
\<close>

definition prepare_heap_tail ::
  "pgn \<Rightarrow> nat \<Rightarrow> nat \<Rightarrow> bool \<Rightarrow> addr \<Rightarrow> addr \<Rightarrow> heap
     \<Rightarrow> (error + (real list list \<times> long_tensor \<times> long_tensor option)) \<times> heap" where
  "prepare_heap_tail m batch_size source_max_length with_target tokens0 token_ids hb =
     (let unk_only = map2 (unk_only_row m) (load hb tokens0) (load hb token_ids);
          (unk_token_nums, h1) =
             alloc hb (replicate batch_size (replicate (width (load hb token_ids)) 0));
          h2 = fill_unk_token_nums unk_token_nums unk_only [0..<batch_size] h1;
          (tokens, h3) =
             alloc h2 (map2 (rewrite_with m) (load h2 tokens0) (load h2 unk_token_nums));
          (failure, h4) = (if \<not> with_target then (None, h3)
                           else collapse_loop m source_max_length tokens [0..<batch_size] h3)
      in case failure of
           Some e \<Rightarrow> (Inl e, h4)
         | None \<Rightarrow>
             (case tensor_max (concat (map (take source_max_length) (load h4 unk_token_nums))) of
                Inl e \<Rightarrow> (Inl e, h4)
              | Inr source_unk_count \<Rightarrow>
                  (Inr (replicate batch_size (replicate (nat source_unk_count) 0),
                        map (take source_max_length) (load h4 tokens),
                        if \<not> with_target then None
                        else Some (map (drop source_max_length) (load h4 tokens))), h4)))"

text \<open>
  \<^verbatim>\<open>_prepare\<close> on the store. Without targets the variables \<^verbatim>\<open>tokens\<close> and
  \<^verbatim>\<open>token_ids\<close> of lines 108 and 109 hold the addresses of the caller's tensors; with
  targets, \<^verbatim>\<open>torch.cat\<close> builds new ones.
\<close>

definition prepare_heap ::
  "pgn \<Rightarrow> addr \<Rightarrow> addr \<Rightarrow> addr option \<Rightarrow> addr option \<Rightarrow> heap
     \<Rightarrow> (error + (real list list \<times> long_tensor \<times> long_tensor option)) \<times> heap" where
  "prepare_heap m source_tokens source_token_ids target_tokens target_token_ids h0 =
     (let batch_size = length (load h0 source_tokens);
          source_max_length = width (load h0 source_tokens)
      in case cat_inputs (load h0 source_tokens) (load h0 source_token_ids)
                (map_option (load h0) target_tokens) (map_option (load h0) target_token_ids) of
        Inl e \<Rightarrow> (Inl e, h0)
      | Inr (cat_tokens, cat_token_ids) \<Rightarrow>
          let (tokens0, ha) = (if target_tokens = None then (source_tokens, h0)
                               else alloc h0 cat_tokens);
              (token_ids, hb) = (if target_tokens = None then (source_token_ids, ha)
                                 else alloc ha cat_token_ids)
          in prepare_heap_tail m batch_size source_max_length (target_tokens \<noteq> None)
               tokens0 token_ids hb)"

text \<open>Lines 114 to 138 on values, as \<open>prepare\<close> has them after the concatenation.\<close>

definition prepare_tail ::
  "pgn \<Rightarrow> nat \<Rightarrow> nat \<Rightarrow> bool \<Rightarrow> long_tensor \<Rightarrow> long_tensor
     \<Rightarrow> error + (real list list \<times> long_tensor \<times> long_tensor option)" where
  "prepare_tail m batch_size source_max_length with_target tokens0 token_ids =
     (let unk_token_nums = map2 (unk_token_nums_row m) tokens0 token_ids;
          tokens1 = map2 (rewrite_row m) tokens0 token_ids
      in case (if \<not> with_target then Inr tokens1
               else traverse (collapse_row m source_max_length) tokens1) of
               Inl e \<Rightarrow> Inl e
             | Inr tokens \<Rightarrow>
                 (case tensor_max (concat (map (take source_max_length) unk_token_nums)) of
                    Inl e \<Rightarrow> Inl e
                  | Inr source_unk_count \<Rightarrow>
                      Inr (replicate batch_size (replicate (nat source_unk_count) 0),
                           map (take source_max_length) tokens,
                           if \<not> with_target then None
                           else Some (map (drop source_max_length) tokens))))"

text \<open>A store with the tensors of the scenario at the addresses 0 to 3.\<close>

definition scenario_heap :: heap where
  "scenario_heap = \<lparr>cells = [0 \<mapsto> [[5, 1, 6]], 1 \<mapsto> [[0, 1, 2]], 2 \<mapsto> [[1, 6, 1]], 3 \<mapsto> [[1, 2, 3]]],
     next_addr = 4\<rparr>"

section \<open>The output decoder: \<^verbatim>\<open>decode\<close>\<close>

text \<open>
  The predictions of one example are a vector of indices (greedy decoding) or a matrix with one
  row for each hypothesis of the beam, best first. The vocabulary of the target namespace is a
  partial map from indices to tokens, \<^verbatim>\<open>get_token_from_index\<close> raising a key error
  outside its domain. The metadata of an example holds its literal source tokens,
  \<^verbatim>\<open>metadata["source_tokens"]\<close>.
\<close>

datatype prediction = Hypothesis "int list" | Beam "int list list"

type_synonym vocabulary = "int \<rightharpoonup> string"

record metadata =
  meta_source_tokens :: "string list"

text \<open>Lines 339 to 341: \<^verbatim>\<open>if len(indices.shape) > 1: indices = indices[0]\<close>.\<close>

definition top_hypothesis :: "prediction \<Rightarrow> error + int list" where
  "top_hypothesis p =
     (case p of
        Hypothesis indices \<Rightarrow> Inr indices
      | Beam [] \<Rightarrow> Inl IndexError
      | Beam (indices # _) \<Rightarrow> Inr indices)"

text \<open>Lines 343 and 344: the indices up to the first end symbol.\<close>

definition till_end_symbol :: "pgn \<Rightarrow> int list \<Rightarrow> int list" where
  "till_end_symbol m indices =
     (if end_index m \<in> set indices then take (index_of indices (end_index m)) indices
      else indices)"

text \<open>
  Lines 347 to 352: the loop over \<^verbatim>\<open>enumerate(source_to_target)\<close>, with the position
  \<open>i\<close> and the list \<^verbatim>\<open>unk_tokens\<close> built so far.
\<close>

fun collect_unk_tokens ::
  "pgn \<Rightarrow> string list \<Rightarrow> nat \<Rightarrow> int list \<Rightarrow> string list \<Rightarrow> error + string list" where
  "collect_unk_tokens m src i [] unk_tokens = Inr unk_tokens"
| "collect_unk_tokens m src i (t # ts) unk_tokens =
     (if t = target_unk_index m then
        (if i < length src then
           let token = src ! i in
           collect_unk_tokens m src (Suc i) ts
             (if token \<in> set unk_tokens then unk_tokens else unk_tokens @ [token])
         else Inl IndexError)
      else collect_unk_tokens m src (Suc i) ts unk_tokens)"

text \<open>Lines 355 to 359: the token of one predicted index.\<close>

definition token_of_index :: "pgn \<Rightarrow> vocabulary \<Rightarrow> string list \<Rightarrow> int \<Rightarrow> error + string" where
  "token_of_index m vocab unk_tokens x =
     (if x < target_vocab_size m then
        (case vocab x of None \<Rightarrow> Inl KeyError | Some token \<Rightarrow> Inr token)
      else
        let unk_number = x - target_vocab_size m in
        if nat unk_number < length unk_tokens then Inr (unk_tokens ! nat unk_number)
        else Inl IndexError)"

text \<open>The body of the loop of \<^verbatim>\<open>decode\<close> over the examples, lines 337 to 361.\<close>

definition decode_example ::
  "pgn \<Rightarrow> vocabulary \<Rightarrow> prediction \<Rightarrow> metadata \<Rightarrow> int list \<Rightarrow> error + string list" where
  "decode_example m vocab predicted md source_to_target =
     (case top_hypothesis predicted of
        Inl e \<Rightarrow> Inl e
      | Inr indices0 \<Rightarrow>
          let indices = till_end_symbol m indices0 in
          (case collect_unk_tokens m (meta_source_tokens md) 0 source_to_target [] of
             Inl e \<Rightarrow> Inl e
           | Inr unk_tokens \<Rightarrow> traverse (token_of_index m vocab unk_tokens) indices))"

text \<open>\<^verbatim>\<open>decode\<close>: the predicted tokens of all the examples that the three zipped
  sequences share.\<close>

definition decode ::
  "pgn \<Rightarrow> vocabulary \<Rightarrow> prediction list \<Rightarrow> metadata list \<Rightarrow> long_tensor
     \<Rightarrow> error + string list list" where
  "decode m vocab predicted_indices metadata source_to_target =
     traverse (\<lambda>((indices, md), stt). decode_example m vocab indices md stt)
       (zip (zip predicted_indices metadata) source_to_target)"

subsection \<open>Notions used to state the properties of \<^verbatim>\<open>decode\<close>\<close>

text \<open>The literal source tokens at the positions that \<^verbatim>\<open>source_to_target\<close> marks
  unknown, in the order of the positions.\<close>

definition unk_candidates :: "pgn \<Rightarrow> string list \<Rightarrow> int list \<Rightarrow> string list" where
  "unk_candidates m src source_to_target =
     map (\<lambda>i. src ! i)
       (filter (\<lambda>i. source_to_target ! i = target_unk_index m) [0..<length source_to_target])"

definition unk_positions_in_source :: "pgn \<Rightarrow> string list \<Rightarrow> int list \<Rightarrow> bool" where
  "unk_positions_in_source m src source_to_target =
     list_all (\<lambda>i. source_to_target ! i = target_unk_index m \<longrightarrow> i < length src)
       [0..<length source_to_target]"

text \<open>The scenario of the specification for \<^verbatim>\<open>decode\<close>: a vocabulary of ten entries and
  the source "the zorblax ran zorblax quux".\<close>

definition scenario_vocab :: vocabulary where
  "scenario_vocab = [0 \<mapsto> ''@@PADDING@@'', 1 \<mapsto> ''@@UNKNOWN@@'', 2 \<mapsto> ''@start@'',
     3 \<mapsto> ''@end@'', 4 \<mapsto> ''a'', 5 \<mapsto> ''the'', 6 \<mapsto> ''ran'', 7 \<mapsto> ''fast'', 8 \<mapsto> ''dog'', 9 \<mapsto> ''cat'']"

definition scenario_metadata :: metadata where
  "scenario_metadata = \<lparr>meta_source_tokens = [''the'', ''zorblax'', ''ran'', ''zorblax'', ''quux'']\<rparr>"

section \<open>The decoder step, the final distribution and the forward loop\<close>

text \<open>
  The entries of a floating-point tensor are read as real numbers: a vector is a list of reals,
  a matrix (batch first) a list of rows. The learned and library modules that the network is
  built from are parameters of the model: the attention (called with three arguments, or with
  the coverage as a fourth), the target embedder, the LSTM cell, the two projection layers and
  the layer of the generation gate, whose single output column is given as a vector.
\<close>

type_synonym vec = "real list"
type_synonym mat = "real list list"

record modules =
  attention :: "mat \<Rightarrow> mat list \<Rightarrow> mat \<Rightarrow> mat option \<Rightarrow> mat"
  target_embedder :: "int list \<Rightarrow> mat"
  decoder_cell :: "mat \<Rightarrow> mat \<times> mat \<Rightarrow> mat \<times> mat"
  hidden_projection_layer :: "mat \<Rightarrow> mat"
  output_projection_layer :: "mat \<Rightarrow> mat"
  p_gen_layer :: "mat \<Rightarrow> vec"

text \<open>
  The state dictionary, one field for each key (\<open>st_tokens\<close> is \<^verbatim>\<open>state["tokens"]\<close>).
  The keys \<^verbatim>\<open>coverage\<close> and \<^verbatim>\<open>target_tokens\<close> are present only in some runs; the keys
  that \<^verbatim>\<open>_prepare_output_projections\<close> sets are written before they are read.
\<close>

record decoder_state =
  st_encoder_outputs :: "mat list"
  st_source_mask :: mat
  st_decoder_hidden :: mat
  st_decoder_context :: mat
  st_coverage :: "mat option"
  st_tokens :: long_tensor
  st_extra_zeros :: mat
  st_target_tokens :: "long_tensor option"
  st_decoder_input :: mat
  st_attn_scores :: mat
  st_attn_context :: mat

text \<open>\<^verbatim>\<open>util.weighted_sum\<close> of the encoder outputs of one example by its attention weights.\<close>

definition weighted_sum_row :: "mat \<Rightarrow> vec \<Rightarrow> vec" where
  "weighted_sum_row enc attn =
     foldr (\<lambda>(e, w) acc. map2 (+) (map ((*) w) e) acc) (zip enc attn) (replicate (width enc) 0)"

definition softmax_row :: "vec \<Rightarrow> vec" where
  "softmax_row xs = map (\<lambda>x. exp x / sum_list (map exp xs)) xs"

definition sigmoid :: "real \<Rightarrow> real" where
  "sigmoid x = 1 / (1 + exp (- x))"

text \<open>\<^verbatim>\<open>_prepare_output_projections\<close>.\<close>

definition prepare_output_projections ::
  "pgn \<Rightarrow> modules \<Rightarrow> int list \<Rightarrow> decoder_state \<Rightarrow> error + (mat \<times> decoder_state)" where
  "prepare_output_projections m mods last_predictions state =
     (let encoder_outputs = st_encoder_outputs state;
          source_mask = st_source_mask state;
          decoder_hidden = st_decoder_hidden state;
          decoder_context = st_decoder_context state;
          is_unk = map (\<lambda>p. if p \<ge> target_vocab_size m then 1 else 0) last_predictions;
          last_predictions_fixed =
            map2 (\<lambda>p u. p - p * u + target_unk_index m * u) last_predictions is_unk;
          embedded_input = target_embedder mods last_predictions_fixed
      in case (if \<not> use_coverage m
               then Inr (attention mods decoder_hidden encoder_outputs source_mask None, state)
               else (case st_coverage state of
                       None \<Rightarrow> Inl KeyError
                     | Some coverage \<Rightarrow>
                         let attn_scores =
                               attention mods decoder_hidden encoder_outputs source_mask (Some coverage);
                             coverage' = map2 (map2 (+)) coverage attn_scores
                         in Inr (attn_scores, state\<lparr>st_coverage := Some coverage'\<rparr>))) of
          Inl e \<Rightarrow> Inl e
        | Inr (attn_scores, state1) \<Rightarrow>
            let attn_context = map2 weighted_sum_row encoder_outputs attn_scores;
                decoder_input = map2 (@) attn_context embedded_input;
                (decoder_hidden', decoder_context') =
                   decoder_cell mods decoder_input (decoder_hidden, decoder_context);
                output_projections =
                   output_projection_layer mods (hidden_projection_layer mods decoder_hidden')
            in Inr (output_projections,
                    state1\<lparr>st_decoder_input := decoder_input,
                           st_decoder_hidden := decoder_hidden',
                           st_decoder_context := decoder_context',
                           st_attn_scores := attn_scores,
                           st_attn_context := attn_context\<rparr>))"

text \<open>
  \<^verbatim>\<open>scatter_add\<close> along dimension 1, for one row: the source value of every position is added
  at the index that the position holds; an index outside the row is a runtime error.
\<close>

fun scatter_add_row :: "vec \<Rightarrow> int list \<Rightarrow> vec \<Rightarrow> error + vec" where
  "scatter_add_row acc [] src = Inr acc"
| "scatter_add_row acc (t # ts) [] = Inl RuntimeError"
| "scatter_add_row acc (t # ts) (a # as) =
     (if 0 \<le> t \<and> nat t < length acc
      then scatter_add_row (acc[nat t := acc ! nat t + a]) ts as
      else Inl RuntimeError)"

text \<open>\<^verbatim>\<open>_get_final_dist\<close>, lines 210 to 233.\<close>

definition get_final_dist :: "pgn \<Rightarrow> modules \<Rightarrow> decoder_state \<Rightarrow> mat \<Rightarrow> error + mat" where
  "get_final_dist m mods state output_projections =
     (let attn_dist = st_attn_scores state;
          tokens = st_tokens state;
          extra_zeros = st_extra_zeros state;
          attn_context = st_attn_context state;
          decoder_input = st_decoder_input state;
          decoder_hidden = st_decoder_hidden state;
          decoder_context = st_decoder_context state;
          decoder_state = map2 (@) decoder_hidden decoder_context;
          p_gen = map sigmoid
                    (p_gen_layer mods (map2 (@) attn_context (map2 (@) decoder_state decoder_input)));
          vocab_dist = map softmax_row output_projections;
          vocab_dist = map2 (\<lambda>row g. map (\<lambda>x. x * g) row) vocab_dist p_gen;
          attn_dist = map2 (\<lambda>row g. map (\<lambda>x. x * (1 - g)) row) attn_dist p_gen;
          vocab_dist = (if width extra_zeros \<noteq> 0 then map2 (@) vocab_dist extra_zeros
                        else vocab_dist)
      in case traverse (\<lambda>(v, t, a). scatter_add_row v t a) (zip vocab_dist (zip tokens attn_dist)) of
           Inl e \<Rightarrow> Inl e
         | Inr final_dist \<Rightarrow>
             Inr (map (\<lambda>row. map (\<lambda>x. x / sum_list row) row) final_dist))"

text \<open>
  \<^verbatim>\<open>_get_loss\<close>, lines 298 to 305. \<^verbatim>\<open>NLLLoss(ignore_index=0)\<close> of log-probabilities of
  shape (batch, classes, steps) against targets of shape (batch, steps) is the mean, over the
  positions whose target is not 0, of the negated log-probability of the target class; a
  target outside the classes or beyond the steps is an error.
\<close>

definition nll_term :: "mat \<Rightarrow> nat \<times> int \<Rightarrow> error + real option" where
  "nll_term logp_b p =
     (case p of (t, c) \<Rightarrow>
        if c = 0 then Inr None
        else if 0 \<le> c \<and> nat c < length logp_b \<and> t < length (logp_b ! nat c)
        then Inr (Some (- (logp_b ! nat c ! t)))
        else Inl IndexError)"

definition nll_loss :: "mat list \<Rightarrow> long_tensor \<Rightarrow> error + real" where
  "nll_loss logp targets =
     (if length logp \<noteq> length targets \<or>
         \<not> list_all (\<lambda>(logp_b, targets_b). list_all (\<lambda>row. length row = length targets_b) logp_b)
              (zip logp targets)
      then Inl RuntimeError
      else case traverse (\<lambda>(logp_b, targets_b). traverse (nll_term logp_b) (enumerate 0 targets_b))
                  (zip logp targets) of
             Inl e \<Rightarrow> Inl e
           | Inr terms \<Rightarrow>
               let kept = concat (map (\<lambda>row. concat (map (\<lambda>x. case x of None \<Rightarrow> [] | Some v \<Rightarrow> [v]) row)) terms)
               in Inr (sum_list kept / real (length kept)))"

definition get_loss :: "mat list \<Rightarrow> long_tensor \<Rightarrow> real \<Rightarrow> error + real" where
  "get_loss proba targets e =
     (let targets' = map tl targets;
          proba' = map (map (map (\<lambda>p. ln (p + e)))) proba
      in nll_loss proba' targets')"

text \<open>\<^verbatim>\<open>torch.max(final_dist, 1)\<close>: the index of the greatest entry of a row, the first one
  among equals.\<close>

definition argmax_row :: "vec \<Rightarrow> error + int" where
  "argmax_row xs =
     (case xs of [] \<Rightarrow> Inl RuntimeError | y # ys \<Rightarrow> Inr (int (index_of xs (fold max ys y))))"

text \<open>
  The variables of the loop of \<^verbatim>\<open>_forward_loop\<close>, lines 249 to 276. The random numbers that
  \<^verbatim>\<open>torch.rand(1).item()\<close> draws are given by the time step.
\<close>

record loop_vars =
  lv_state :: decoder_state
  lv_last_predictions :: "int list"
  lv_step_proba :: "mat list"
  lv_step_predictions :: "int list list"
  lv_coverage_loss :: "vec option"

definition forward_step ::
  "pgn \<Rightarrow> modules \<Rightarrow> (nat \<Rightarrow> real) \<Rightarrow> long_tensor option \<Rightarrow> nat \<Rightarrow> loop_vars
     \<Rightarrow> error + loop_vars" where
  "forward_step m mods rand targets timestep lv =
     (case (if training m \<and> rand timestep < scheduled_sampling_ratio m
            then Inr (lv_last_predictions lv)
            else case targets of
                   None \<Rightarrow> Inr (lv_last_predictions lv)
                 | Some tg \<Rightarrow> if timestep < width tg then Inr (map (\<lambda>row. row ! timestep) tg)
                              else Inl IndexError) of
        Inl e \<Rightarrow> Inl e
      | Inr input_choices \<Rightarrow>
          (case (if use_coverage m
                 then (case st_coverage (lv_state lv) of
                         None \<Rightarrow> Inl KeyError | Some c \<Rightarrow> Inr (Some c))
                 else Inr None) of
             Inl e \<Rightarrow> Inl e
           | Inr coverage \<Rightarrow>
               (case prepare_output_projections m mods input_choices (lv_state lv) of
                  Inl e \<Rightarrow> Inl e
                | Inr (output_projections, state) \<Rightarrow>
                    (case get_final_dist m mods state output_projections of
                       Inl e \<Rightarrow> Inl e
                     | Inr final_dist \<Rightarrow>
                         let coverage_loss =
                               (case coverage of
                                  None \<Rightarrow> lv_coverage_loss lv
                                | Some c \<Rightarrow>
                                    let step_coverage_loss =
                                          map2 (\<lambda>a cr. sum_list (map2 min a cr)) (st_attn_scores state) c
                                    in (case lv_coverage_loss lv of
                                          None \<Rightarrow> Some step_coverage_loss
                                        | Some cl \<Rightarrow> Some (map2 (+) cl step_coverage_loss)))
                         in (case traverse argmax_row final_dist of
                               Inl e \<Rightarrow> Inl e
                             | Inr predicted_classes \<Rightarrow>
                                 Inr \<lparr>lv_state = state,
                                      lv_last_predictions = predicted_classes,
                                      lv_step_proba = lv_step_proba lv @ [final_dist],
                                      lv_step_predictions = lv_step_predictions lv @ [predicted_classes],
                                      lv_coverage_loss = coverage_loss\<rparr>)))))"

fun forward_steps ::
  "pgn \<Rightarrow> modules \<Rightarrow> (nat \<Rightarrow> real) \<Rightarrow> long_tensor option \<Rightarrow> nat list \<Rightarrow> loop_vars
     \<Rightarrow> error + loop_vars" where
  "forward_steps m mods rand targets [] lv = Inr lv"
| "forward_steps m mods rand targets (timestep # rest) lv =
     (case forward_step m mods rand targets timestep lv of
        Inl e \<Rightarrow> Inl e
      | Inr lv' \<Rightarrow> forward_steps m mods rand targets rest lv')"

text \<open>Lines 242 to 247: the number of decoding steps.\<close>

definition num_decoding_steps :: "pgn \<Rightarrow> long_tensor option \<Rightarrow> int" where
  "num_decoding_steps m targets =
     (case targets of
        None \<Rightarrow> max_decoding_steps m
      | Some tg \<Rightarrow> int (width tg) - 1)"

text \<open>Line 279, \<^verbatim>\<open>torch.cat(step_predictions, 1)\<close>, and lines 285 to 288, the tensor of shape
  (batch, classes, steps) of the distributions of all steps.\<close>

definition cat_predictions :: "int list list \<Rightarrow> error + long_tensor" where
  "cat_predictions step_predictions =
     (case step_predictions of
        [] \<Rightarrow> Inl RuntimeError
      | p # _ \<Rightarrow> Inr (map (\<lambda>b. map (\<lambda>sp. sp ! b) step_predictions) [0..<length p]))"

definition stack_proba :: "nat \<Rightarrow> mat list \<Rightarrow> mat list" where
  "stack_proba batch_size step_proba =
     (let num_classes = width (hd step_proba) in
      map (\<lambda>b. map (\<lambda>c. map (\<lambda>p. p ! b ! c) step_proba) [0..<num_classes]) [0..<batch_size])"

text \<open>
  What \<^verbatim>\<open>_forward_loop\<close> computes: the predictions and, with targets, the loss of
  \<^verbatim>\<open>_get_loss\<close> and, with coverage, the coverage term
  \<^verbatim>\<open>torch.mean(coverage_loss / num_decoding_steps)\<close>, before line 293 adds the two.
\<close>

record loop_result =
  res_predictions :: long_tensor
  res_primary_loss :: "real option"
  res_coverage_term :: "real option"

definition forward_loop_parts ::
  "pgn \<Rightarrow> modules \<Rightarrow> (nat \<Rightarrow> real) \<Rightarrow> decoder_state \<Rightarrow> long_tensor option
     \<Rightarrow> error + loop_result" where
  "forward_loop_parts m mods rand state targets =
     (let batch_size = length (st_source_mask state);
          n = num_decoding_steps m targets;
          last_predictions = replicate batch_size (start_index m)
      in case forward_steps m mods rand targets [0..<nat n]
                \<lparr>lv_state = state, lv_last_predictions = last_predictions, lv_step_proba = [],
                 lv_step_predictions = [], lv_coverage_loss = None\<rparr> of
           Inl e \<Rightarrow> Inl e
         | Inr lv \<Rightarrow>
             (case cat_predictions (lv_step_predictions lv) of
                Inl e \<Rightarrow> Inl e
              | Inr predictions \<Rightarrow>
                  if targets = None
                  then Inr \<lparr>res_predictions = predictions, res_primary_loss = None,
                            res_coverage_term = None\<rparr>
                  else (case st_target_tokens (lv_state lv) of
                          None \<Rightarrow> Inl KeyError
                        | Some target_tokens \<Rightarrow>
                            (case get_loss (stack_proba batch_size (lv_step_proba lv)) target_tokens (eps m) of
                               Inl e \<Rightarrow> Inl e
                             | Inr loss \<Rightarrow>
                                 Inr \<lparr>res_predictions = predictions, res_primary_loss = Some loss,
                                      res_coverage_term =
                                        (if use_coverage m
                                         then map_option
                                                (\<lambda>cl. sum_list (map (\<lambda>x. x / real_of_int n) cl) / real (length cl))
                                                (lv_coverage_loss lv)
                                         else None)\<rparr>))))"

text \<open>\<^verbatim>\<open>_forward_loop\<close>: the output dictionary, with the key \<^verbatim>\<open>loss\<close> when there are
  targets. A coverage-loss weight that was left at \<^verbatim>\<open>None\<close> is a type error at line 293.\<close>

record output_dict =
  out_predictions :: long_tensor
  out_loss :: "real option"

definition forward_loop ::
  "pgn \<Rightarrow> modules \<Rightarrow> (nat \<Rightarrow> real) \<Rightarrow> decoder_state \<Rightarrow> long_tensor option
     \<Rightarrow> error + output_dict" where
  "forward_loop m mods rand state targets =
     (case forward_loop_parts m mods rand state targets of
        Inl e \<Rightarrow> Inl e
      | Inr r \<Rightarrow>
          (case res_primary_loss r of
             None \<Rightarrow> Inr \<lparr>out_predictions = res_predictions r, out_loss = None\<rparr>
           | Some loss \<Rightarrow>
               if use_coverage m
               then (case (coverage_loss_weight m, res_coverage_term r) of
                       (Some w, Some c) \<Rightarrow>
                         Inr \<lparr>out_predictions = res_predictions r, out_loss = Some (loss + w * c)\<rparr>
                     | _ \<Rightarrow> Inl TypeError)
               else Inr \<lparr>out_predictions = res_predictions r, out_loss = Some loss\<rparr>))"

subsection \<open>A small network\<close>

text \<open>
  One example with two source positions holding the vocabulary indices 1 and 2, a vocabulary of
  three entries, and modules that are as simple as can be: constant projections and gate, an
  LSTM cell that keeps its state, and an attention with the base scores 2 and 1 that, when it
  is given the coverage, divides the score of a position by one plus its coverage before it
  normalises.
\<close>

definition toy_attention :: "mat \<Rightarrow> mat list \<Rightarrow> mat \<Rightarrow> mat option \<Rightarrow> mat" where
  "toy_attention decoder_hidden encoder_outputs source_mask coverage =
     (case coverage of
        None \<Rightarrow> [[2 / 3, 1 / 3]]
      | Some c \<Rightarrow> map (\<lambda>row. let s = [2 / (1 + row ! 0), 1 / (1 + row ! 1)]
                             in map (\<lambda>x. x / sum_list s) s) c)"

definition toy_modules :: modules where
  "toy_modules = \<lparr>attention = toy_attention,
     target_embedder = (\<lambda>_. [[0]]),
     decoder_cell = (\<lambda>_ hc. hc),
     hidden_projection_layer = (\<lambda>h. h),
     output_projection_layer = (\<lambda>_. [[0, 0, 0]]),
     p_gen_layer = (\<lambda>_. [0])\<rparr>"

definition toy_model :: pgn where
  "toy_model = \<lparr>start_index = 2, end_index = 0, target_unk_index = 1, target_vocab_size = 3,
     max_decoding_steps = 5, use_coverage = False, coverage_loss_weight = None,
     scheduled_sampling_ratio = 0, training = False, eps = 1 / 10 ^ 31\<rparr>"

definition toy_state :: decoder_state where
  "toy_state = \<lparr>st_encoder_outputs = [[[1], [1]]], st_source_mask = [[1, 1]],
     st_decoder_hidden = [[0]], st_decoder_context = [[0]], st_coverage = None,
     st_tokens = [[1, 2]], st_extra_zeros = [[]], st_target_tokens = None,
     st_decoder_input = [], st_attn_scores = [], st_attn_context = []\<rparr>"


definition toy_inv :: "decoder_state \<Rightarrow> bool" where
  "toy_inv st = (st_encoder_outputs st = [[[1], [1]]] \<and> st_decoder_hidden st = [[0]] \<and>
     st_decoder_context st = [[0]] \<and> st_coverage st = None \<and> st_tokens st = [[1, 2]] \<and>
     st_extra_zeros st = [[]])"


definition toy_targets :: long_tensor where
  "toy_targets = [[2, 1, 1, 1, 1, 1, 1]]"

definition toy_state_targets :: decoder_state where
  "toy_state_targets = toy_state\<lparr>st_target_tokens := Some toy_targets\<rparr>"

subsection \<open>The forward pass with and without coverage\<close>












subsection \<open>The loss as the specification words it\<close>

text \<open>
  The positions that count for the loss: step t of example b, when the target of the step,
  the entry t + 1 of the example's row of target indices (the row without its start token),
  is not the padding index 0. The loss is the mean over these positions of the negated
  logarithm of the probability that the distribution of the step gives to the target, with
  epsilon added to the probability; \<open>proba\<close> has the shape (batch, classes, steps).
\<close>

definition spec_loss_positions :: "long_tensor \<Rightarrow> (nat \<times> nat) list" where
  "spec_loss_positions targets =
     concat (map (\<lambda>b. map (Pair b)
                          (filter (\<lambda>t. targets ! b ! Suc t \<noteq> 0) [0..<length (targets ! b) - 1]))
               [0..<length targets])"

definition spec_masked_nll :: "mat list \<Rightarrow> long_tensor \<Rightarrow> real \<Rightarrow> real" where
  "spec_masked_nll proba targets e =
     (let positions = spec_loss_positions targets
      in sum_list (map (\<lambda>(b, t). - ln (proba ! b ! nat (targets ! b ! Suc t) ! t + e)) positions)
           / real (length positions))"

text \<open>The shapes that \<^verbatim>\<open>NLLLoss\<close> accepts, one step for each target after the first, and
  targets that are classes of the distributions.\<close>

definition loss_shapes_fit :: "mat list \<Rightarrow> long_tensor \<Rightarrow> bool" where
  "loss_shapes_fit proba targets =
     (length proba = length targets \<and>
      list_all (\<lambda>b. list_all (\<lambda>row. length row = length (targets ! b) - 1) (proba ! b))
        [0..<length targets])"

definition loss_targets_in_range :: "mat list \<Rightarrow> long_tensor \<Rightarrow> bool" where
  "loss_targets_in_range proba targets =
     list_all (\<lambda>(b, t). 0 \<le> targets ! b ! Suc t \<and> nat (targets ! b ! Suc t) < length (proba ! b))
       (spec_loss_positions targets)"

section \<open>The evaluation script: \<^verbatim>\<open>evaluate.py\<close>\<close>

text \<open>
  A Python string is a list of code points; \<open>str\<close> gives the string of an ASCII literal.
  \<open>isspace\<close> is the whitespace of \<^verbatim>\<open>str.strip()\<close> and of \<^verbatim>\<open>\s\<close> in a Unicode
  pattern.
\<close>

type_synonym ustring = "nat list"

definition str :: "string \<Rightarrow> ustring" where
  "str s = map of_char s"

definition isspace :: "nat \<Rightarrow> bool" where
  "isspace c = ((9 \<le> c \<and> c \<le> 13) \<or> (28 \<le> c \<and> c \<le> 32) \<or> c = 133 \<or> c = 160 \<or> c = 5760 \<or>
     (8192 \<le> c \<and> c \<le> 8202) \<or> c = 8232 \<or> c = 8233 \<or> c = 8239 \<or> c = 8287 \<or> c = 12288)"

definition strip :: "ustring \<Rightarrow> ustring" where
  "strip s = rev (dropWhile isspace (rev (dropWhile isspace s)))"

text \<open>\<^verbatim>\<open>sep.join(words)\<close>.\<close>

fun join :: "ustring \<Rightarrow> ustring list \<Rightarrow> ustring" where
  "join sep [] = []"
| "join sep [w] = w"
| "join sep (w # v # ws) = w @ sep @ join sep (v # ws)"

text \<open>\<^verbatim>\<open>text.replace(old, new)\<close>: the occurrences of \<open>old\<close> from left to right, without
  overlap; an empty \<open>old\<close> occurs before every character and at the end.\<close>

function replace :: "ustring \<Rightarrow> ustring \<Rightarrow> ustring \<Rightarrow> ustring" where
  "replace old new text =
     (if old = [] then new @ concat (map (\<lambda>c. c # new) text)
      else if text = [] then []
      else if take (length old) text = old then new @ replace old new (drop (length old) text)
      else hd text # replace old new (tl text))"
  by pat_completeness auto
termination
  by (relation "measure (\<lambda>(old, new, text). length text)") auto

text \<open>\<^verbatim>\<open>text.split(sep)\<close> for a separator that is not empty (an empty one is a value
  error), with the piece read so far.\<close>

function split_from :: "ustring \<Rightarrow> ustring \<Rightarrow> ustring \<Rightarrow> ustring list" where
  "split_from sep piece text =
     (if text = [] then [piece]
      else if sep \<noteq> [] \<and> take (length sep) text = sep
      then piece # split_from sep [] (drop (length sep) text)
      else split_from sep (piece @ [hd text]) (tl text))"
  by pat_completeness auto
termination
  by (relation "measure (\<lambda>(sep, piece, text). length text)") auto

definition split :: "ustring \<Rightarrow> ustring \<Rightarrow> error + ustring list" where
  "split sep text = (if sep = [] then Inl RuntimeError else Inr (split_from sep [] text))"

text \<open>
  \<^verbatim>\<open>re.findall\<close> of the pattern \<^verbatim>\<open>q\s[^q]+\sq\<close> of line 24 for a quote character q: a
  match starts at a quote that is followed by a whitespace character and runs to the next
  quote, which must be preceded by a whitespace character and by at least one further
  character; the search goes on after the match, or at the next character when there is none.
\<close>

definition match_quoted :: "nat \<Rightarrow> ustring \<Rightarrow> (ustring \<times> ustring) option" where
  "match_quoted q rest =
     (case rest of
        [] \<Rightarrow> None
      | w # body \<Rightarrow>
          let inner = takeWhile (\<lambda>c. c \<noteq> q) body;
              after = dropWhile (\<lambda>c. c \<noteq> q) body
          in if isspace w \<and> after \<noteq> [] \<and> 2 \<le> length inner \<and> isspace (last inner)
             then Some (q # w # inner @ [q], tl after)
             else None)"

function findall_quoted :: "nat \<Rightarrow> ustring \<Rightarrow> ustring list" where
  "findall_quoted q text =
     (case text of
        [] \<Rightarrow> []
      | c # rest \<Rightarrow>
          if c = q
          then (case match_quoted q rest of
                  None \<Rightarrow> findall_quoted q rest
                | Some (f, rest') \<Rightarrow> f # findall_quoted q rest')
          else findall_quoted q rest)"
  by pat_completeness auto
termination
proof (relation "measure (\<lambda>(q, t). length t)")
  fix q :: nat and t :: ustring and c rest pair f rest'
  assume t: "t = c # rest" and "match_quoted q rest = Some pair" "(f, rest') = pair"
  then have m: "match_quoted q rest = Some (f, rest')" by simp
  then obtain w body where r: "rest = w # body" and "rest' = tl (dropWhile (\<lambda>c. c \<noteq> q) body)"
    by (auto simp: match_quoted_def Let_def split: list.splits if_splits)
  then have "length rest' \<le> length body"
    using length_dropWhile_le[of "\<lambda>c. c \<noteq> q" body] by simp
  then show "((q, rest'), (q, t)) \<in> measure (\<lambda>(q, t). length t)"
    using r t by simp
qed auto

text \<open>\<^verbatim>\<open>detokenize\<close>, lines 16 to 28.\<close>

definition unquote :: "ustring \<Rightarrow> ustring" where
  "unquote f = hd f # drop 2 (take (length f - 2) f) @ [last f]"

definition detokenize :: "ustring \<Rightarrow> ustring" where
  "detokenize text0 =
     (let punctuation = str '',.!?:;%'';
          closing_punctuation = str '')]}'';
          opening_punctuation = str ''([}'';
          text1 = fold (\<lambda>ch text. replace (str '' '' @ [ch]) [ch] text)
                    (punctuation @ closing_punctuation) text0;
          text2 = fold (\<lambda>ch text. replace (ch # str '' '') [ch] text) opening_punctuation text1
      in fold (\<lambda>q text. fold (\<lambda>f text'. replace f (unquote f) text') (findall_quoted q text) text)
           [of_char (CHR 0x22), of_char (CHR 0x27)] text2)"

text \<open>
  The target of an example, \<^verbatim>\<open>b.get('target')\<close>, is a string, a list of strings or
  something else. The body of the loop of lines 62 to 87 gives the hypothesis and the
  reference list that lines 86 and 87 append; the placeholder of lines 67 and 70 is the
  string "empty".
\<close>

datatype target = TargetStr ustring | TargetList "ustring list" | TargetOther

definition single_ref_pair :: "bool \<Rightarrow> ustring list \<Rightarrow> target \<Rightarrow> error + (ustring \<times> ustring list)" where
  "single_ref_pair is_subwords decoded_words tgt =
     (let hyp0 = (if \<not> is_subwords then detokenize (join (str '' '') decoded_words)
                  else replace [9601] (str '' '') (join [] decoded_words));
          hyp = (if length (strip hyp0) \<le> 1 then str ''empty'' else hyp0)
      in case tgt of
           TargetStr t \<Rightarrow> Inr (hyp, [if length (strip t) \<le> 1 then str ''empty'' else t])
         | _ \<Rightarrow> Inl AttributeError)"

definition escape_sentence :: "ustring \<Rightarrow> ustring" where
  "escape_sentence w = strip (replace (str ''>'') (str ''&gt;'') (replace (str ''<'') (str ''&lt;'') w))"

definition multiple_ref_pair :: "ustring list \<Rightarrow> target \<Rightarrow> error + (ustring \<times> ustring list)" where
  "multiple_ref_pair decoded_words tgt =
     (case (case tgt of
              TargetList sents \<Rightarrow> Inr sents
            | TargetStr t \<Rightarrow> split (str '' s_s '') t
            | TargetOther \<Rightarrow> Inl AssertionError) of
        Inl e \<Rightarrow> Inl e
      | Inr reference_sents \<Rightarrow>
          (case split (str ''s_s'') (join (str '' '') decoded_words) of
             Inl e \<Rightarrow> Inl e
           | Inr decoded_sents \<Rightarrow>
               let hyp = map escape_sentence decoded_sents;
                   ref = map escape_sentence reference_sents
               in Inr (join (str '' '') hyp, [join (str '' '') ref])))"

definition evaluate_pair ::
  "bool \<Rightarrow> bool \<Rightarrow> ustring list \<Rightarrow> target \<Rightarrow> error + (ustring \<times> ustring list)" where
  "evaluate_pair is_multiple_ref is_subwords decoded_words tgt =
     (if \<not> is_multiple_ref then single_ref_pair is_subwords decoded_words tgt
      else multiple_ref_pair decoded_words tgt)"

text \<open>
  The loop of lines 62 to 104 over one batch, with the lists \<^verbatim>\<open>hyps\<close> and \<^verbatim>\<open>refs\<close>
  built so far; \<^verbatim>\<open>max_count\<close> is \<^verbatim>\<open>None\<close> or a number, and 0 counts as none. The
  report of lines 89 to 101, for a positive \<^verbatim>\<open>report_every\<close>, prints scores of library
  metrics and leaves the lists as they are.
\<close>

fun evaluate_batch ::
  "bool \<Rightarrow> bool \<Rightarrow> nat option \<Rightarrow> (ustring list \<times> target) list
     \<Rightarrow> ustring list \<times> ustring list list \<Rightarrow> error + (ustring list \<times> ustring list list)" where
  "evaluate_batch is_multiple_ref is_subwords max_count [] (hyps, refs) = Inr (hyps, refs)"
| "evaluate_batch is_multiple_ref is_subwords max_count ((decoded_words, tgt) # rest) (hyps, refs) =
     (case evaluate_pair is_multiple_ref is_subwords decoded_words tgt of
        Inl e \<Rightarrow> Inl e
      | Inr (hyp, ref) \<Rightarrow>
          let hyps' = hyps @ [hyp]; refs' = refs @ [ref] in
          if (case max_count of None \<Rightarrow> False | Some n \<Rightarrow> n \<noteq> 0 \<and> length hyps' \<ge> n)
          then Inr (hyps', refs')
          else evaluate_batch is_multiple_ref is_subwords max_count rest (hyps', refs'))"

section \<open>Lists in order of first occurrence\<close>

lemma set_first_occurrences: "set (first_occurrences xs) = set xs"
  by (induction xs) auto

lemma distinct_first_occurrences: "distinct (first_occurrences xs)"
  by (induction xs) (auto simp: set_first_occurrences)


section \<open>Properties of \<^verbatim>\<open>_prepare\<close>\<close>

lemma index_of_less_length: "x \<in> set l \<Longrightarrow> index_of l x < length l"
  by (induction l) auto

lemma nth_index_of: "x \<in> set l \<Longrightarrow> l ! index_of l x = x"
  by (induction l) auto






lemma length_unique_inverse: "length (unique_inverse xs) = length xs"
  by (simp add: unique_inverse_def)

lemma length_unk_only_row:
  "length token_ids = length tokens \<Longrightarrow> length (unk_only_row m tokens token_ids) = length tokens"
  by (simp add: unk_only_row_def is_unk_row_def)


lemma length_rewrite_row:
  "length token_ids = length tokens \<Longrightarrow> length (rewrite_row m tokens token_ids) = length tokens"
  by (simp add: rewrite_row_def is_unk_row_def unk_token_nums_row_def length_unique_inverse length_unk_only_row)


lemma fold_max_Max: "fold max ys (y::int) = Max (set (y # ys))"
  using Max.set_eq_fold[of y ys] by simp

lemma tensor_max_Inr: "xs \<noteq> [] \<Longrightarrow> tensor_max xs = Inr (Max (set xs))"
  using fold_max_Max by (cases xs) (simp_all add: tensor_max_def)

lemma tensor_max_Inl: "tensor_max xs = Inl e \<longleftrightarrow> xs = [] \<and> e = RuntimeError"
  by (cases xs) (auto simp add: tensor_max_def)

lemma collapse_row_Inr:
  assumes "collapse_row m s row = Inr row'"
  shows "take s row \<noteq> [] \<and> length row' = length row \<and>
     (\<forall>j < length row. row' ! j =
        (if row ! j > max (target_vocab_size m - 1) (Max (set (take s row))) then target_unk_index m else row ! j))"
proof -
  have ne: "take s row \<noteq> []"
  proof
    assume e: "take s row = []"
    have "tensor_max (take s row) = Inl RuntimeError" unfolding e by (simp add: tensor_max_def)
    with assms show False by (simp add: collapse_row_def)
  qed
  then have tm: "tensor_max (take s row) = Inr (Max (set (take s row)))" by (rule tensor_max_Inr)
  define mask where "mask = map (\<lambda>t. if t > max (target_vocab_size m - 1) (Max (set (take s row)))
                 then 1 else (0::int)) row"
  have row': "row' = map2 (\<lambda>z k. z + target_unk_index m * k) (map2 (\<lambda>t k. t - t * k) row mask) mask"
    using assms unfolding collapse_row_def tm mask_def by (simp add: Let_def)
  have len: "length row' = length row" by (simp add: row' mask_def)
  have "row' ! j = (if row ! j > max (target_vocab_size m - 1) (Max (set (take s row)))
          then target_unk_index m else row ! j)" if "j < length row" for j
    using that by (simp add: row' mask_def)
  then show ?thesis using ne len by simp
qed

lemma traverse_Inr:
  "traverse f xs = Inr ys \<Longrightarrow> length ys = length xs \<and> (\<forall>i<length xs. f (xs ! i) = Inr (ys ! i))"
proof (induction xs arbitrary: ys)
  case Nil
  then show ?case by simp
next
  case (Cons x xs)
  from Cons.prems obtain y ys' where fx: "f x = Inr y" and tr: "traverse f xs = Inr ys'" and ys: "ys = y # ys'"
    by (auto split: sum.splits)
  from Cons.IH[OF tr] have len: "length ys' = length xs" and nth: "\<forall>i<length xs. f (xs ! i) = Inr (ys' ! i)"
    by simp_all
  show ?case using fx len nth ys by (auto simp: nth_Cons split: nat.splits)
qed

lemma has_shape_nth: "has_shape b w xss \<Longrightarrow> i < b \<Longrightarrow> length (xss ! i) = w"
  by (simp add: has_shape_def list_all_length)

lemma has_shape_length: "has_shape b w xss \<Longrightarrow> length xss = b"
  by (simp add: has_shape_def)

lemma cat_inputs_Inr:
  assumes "cat_inputs src sids tgt tids = Inr (tokens0, token_ids)"
  shows "has_shape (length src) (width src) src \<and> has_shape (length src) (width src) sids \<and>
     length tokens0 = length src \<and> length token_ids = length src \<and>
     (\<forall>tt. tgt = Some tt \<longrightarrow> (\<exists>ti. tids = Some ti \<and> has_shape (length src) (width tt) tt
          \<and> has_shape (length src) (width tt) ti)) \<and>
     (\<forall>i<length src. tokens0 ! i = example_tokens src tgt i \<and>
         token_ids ! i = example_token_ids sids tgt tids i)"
  using assms
  by (auto simp: cat_inputs_def Let_def example_tokens_def example_token_ids_def has_shape_def
      split: if_splits option.splits)

lemma cat_inputs_shapes:
  assumes "cat_inputs src sids tgt tids = Inr (tokens0, token_ids)"
  shows "has_shape (length src) (width src) src" and "has_shape (length src) (width src) sids"
    and "length tokens0 = length src" and "length token_ids = length src"
    and "tgt = Some tt \<Longrightarrow> \<exists>ti. tids = Some ti \<and> has_shape (length src) (width tt) tt
          \<and> has_shape (length src) (width tt) ti"
    and "i < length src \<Longrightarrow> tokens0 ! i = example_tokens src tgt i"
    and "i < length src \<Longrightarrow> token_ids ! i = example_token_ids sids tgt tids i"
  using cat_inputs_Inr[OF assms] by simp_all

lemma example_lengths:
  assumes "cat_inputs src sids tgt tids = Inr (tokens0, token_ids)" "i < length src"
  shows "length (example_token_ids sids tgt tids i) = length (example_tokens src tgt i)"
    and "length (src ! i) = width src" and "length (sids ! i) = width src"
    and "take (width src) (example_tokens src tgt i) = src ! i"
    and "width src \<le> length (example_tokens src tgt i)"
proof -
  note c = cat_inputs_shapes[OF assms(1)]
  show l1: "length (src ! i) = width src" by (rule has_shape_nth[OF c(1) assms(2)])
  show l2: "length (sids ! i) = width src" by (rule has_shape_nth[OF c(2) assms(2)])
  show "length (example_token_ids sids tgt tids i) = length (example_tokens src tgt i)"
  proof (cases tgt)
    case None
    then show ?thesis using l1 l2 by (simp add: example_tokens_def example_token_ids_def)
  next
    case (Some tt)
    from c(5)[OF Some] obtain ti where ti: "tids = Some ti" "has_shape (length src) (width tt) tt"
      "has_shape (length src) (width tt) ti" by blast
    have "length (tt ! i) = width tt" "length (ti ! i) = width tt"
      using has_shape_nth[OF ti(2) assms(2)] has_shape_nth[OF ti(3) assms(2)] by simp_all
    then show ?thesis using Some ti(1) l1 l2
      by (simp add: example_tokens_def example_token_ids_def)
  qed
  show "take (width src) (example_tokens src tgt i) = src ! i"
    using l1 by (simp add: example_tokens_def)
  show "width src \<le> length (example_tokens src tgt i)"
    using l1 by (simp add: example_tokens_def)
qed

lemma prepare_Inr:
  assumes ok: "prepare m src sids tgt tids = Inr (ez, ms, mt)" and i: "i < length src"
  shows "\<exists>tokens0 token_ids. cat_inputs src sids tgt tids = Inr (tokens0, token_ids)"
    and "0 < width src"
    and "length ms = length src"
    and "ms ! i = take (width src) (final_row m (width src) (tgt \<noteq> None)
            (rewrite_row m (example_tokens src tgt i) (example_token_ids sids tgt tids i)))"
    and "tgt = None \<Longrightarrow> mt = None"
    and "tgt \<noteq> None \<Longrightarrow> \<exists>mtt. mt = Some mtt \<and> length mtt = length src \<and>
           mtt ! i = drop (width src) (final_row m (width src) True
            (rewrite_row m (example_tokens src tgt i) (example_token_ids sids tgt tids i)))"
proof -
  from ok obtain tokens0 token_ids where cat: "cat_inputs src sids tgt tids = Inr (tokens0, token_ids)"
    by (cases "cat_inputs src sids tgt tids") (auto simp: prepare_def)
  then show "\<exists>tokens0 token_ids. cat_inputs src sids tgt tids = Inr (tokens0, token_ids)" by blast
  note c = cat_inputs_shapes[OF cat]
  note el = example_lengths[OF cat i]
  define tokens1 where "tokens1 = map2 (rewrite_row m) tokens0 token_ids"
  define nums where "nums = map2 (unk_token_nums_row m) tokens0 token_ids"
  have unf: "prepare m src sids tgt tids =
     (case (if tgt = None then Inr tokens1 else traverse (collapse_row m (width src)) tokens1) of
        Inl e \<Rightarrow> Inl e
      | Inr tokens \<Rightarrow>
         (case tensor_max (concat (map (take (width src)) nums)) of
            Inl e \<Rightarrow> Inl e
          | Inr source_unk_count \<Rightarrow>
              Inr (replicate (length src) (replicate (nat source_unk_count) 0),
                   map (take (width src)) tokens,
                   if tgt = None then None else Some (map (drop (width src)) tokens))))"
    unfolding prepare_def Let_def cat tokens1_def nums_def by simp
  from ok obtain tokens where
    tk: "(if tgt = None then Inr tokens1 else traverse (collapse_row m (width src)) tokens1) = Inr tokens"
    unfolding unf
    by (cases "if tgt = None then Inr tokens1 else traverse (collapse_row m (width src)) tokens1") simp_all
  from ok obtain cnt where mx: "tensor_max (concat (map (take (width src)) nums)) = Inr cnt"
    unfolding unf tk
    by (cases "tensor_max (concat (map (take (width src)) nums))") simp_all
  from ok have ms: "ms = map (take (width src)) tokens"
    and mt: "mt = (if tgt = None then None else Some (map (drop (width src)) tokens))"
    unfolding unf tk mx by simp_all
  have len1: "length tokens1 = length src" using c(3,4) by (simp add: tokens1_def)
  have t1: "tokens1 ! i = rewrite_row m (example_tokens src tgt i) (example_token_ids sids tgt tids i)"
    using c(3,4) c(6,7)[OF i] i by (simp add: tokens1_def)
  have lenr: "length (tokens1 ! i) = length (example_tokens src tgt i)"
    using el(1) by (simp add: t1 length_rewrite_row)
  have lent: "length tokens = length src"
  proof (cases "tgt = None")
    case True
    then show ?thesis using tk len1 by simp
  next
    case False
    then have "traverse (collapse_row m (width src)) tokens1 = Inr tokens" using tk by (cases tgt) simp_all
    from traverse_Inr[OF this] show ?thesis using len1 by simp
  qed
  show "length ms = length src" by (simp add: ms lent)
  show w: "0 < width src"
  proof (rule ccontr)
    assume "\<not> 0 < width src"
    then have e: "concat (map (take (width src)) nums) = []" by simp
    have "tensor_max (concat (map (take (width src)) nums)) = Inl RuntimeError"
      unfolding e by (simp add: tensor_max_def)
    with mx show False by simp
  qed
  have fin: "tokens ! i = final_row m (width src) (tgt \<noteq> None) (tokens1 ! i)"
  proof (cases "tgt = None")
    case True
    then show ?thesis using tk by (simp add: final_row_def)
  next
    case False
    then have "traverse (collapse_row m (width src)) tokens1 = Inr tokens" using tk by (cases tgt) simp_all
    from traverse_Inr[OF this] i len1 have "collapse_row m (width src) (tokens1 ! i) = Inr (tokens ! i)"
      by simp
    from collapse_row_Inr[OF this] have l: "length (tokens ! i) = length (tokens1 ! i)"
      and n: "\<And>j. j < length (tokens1 ! i) \<Longrightarrow> tokens ! i ! j =
        (if tokens1 ! i ! j > max (target_vocab_size m - 1) (Max (set (take (width src) (tokens1 ! i))))
         then target_unk_index m else tokens1 ! i ! j)" by blast+
    have fr: "final_row m (width src) (tgt \<noteq> None) (tokens1 ! i) =
       map (\<lambda>t. if t > max (target_vocab_size m - 1) (Max (set (take (width src) (tokens1 ! i))))
                     then target_unk_index m else t) (tokens1 ! i)"
      using False by (simp add: final_row_def)
    show ?thesis unfolding fr
    proof (rule nth_equalityI)
      show "length (tokens ! i) = length (map (\<lambda>t. if t > max (target_vocab_size m - 1) (Max (set (take (width src) (tokens1 ! i))))
                     then target_unk_index m else t) (tokens1 ! i))" using l by simp
    next
      fix j assume "j < length (tokens ! i)"
      then have "j < length (tokens1 ! i)" using l by simp
      then show "tokens ! i ! j = map (\<lambda>t. if t > max (target_vocab_size m - 1) (Max (set (take (width src) (tokens1 ! i))))
                     then target_unk_index m else t) (tokens1 ! i) ! j"
        using n[of j] by (simp only: nth_map)
    qed
  qed
  show "ms ! i = take (width src) (final_row m (width src) (tgt \<noteq> None)
            (rewrite_row m (example_tokens src tgt i) (example_token_ids sids tgt tids i)))"
    using i lent by (simp add: ms fin t1)
  show "tgt = None \<Longrightarrow> mt = None" by (simp add: mt)
  show "tgt \<noteq> None \<Longrightarrow> \<exists>mtt. mt = Some mtt \<and> length mtt = length src \<and>
           mtt ! i = drop (width src) (final_row m (width src) True
            (rewrite_row m (example_tokens src tgt i) (example_token_ids sids tgt tids i)))"
    using i lent fin by (simp add: mt t1)
qed

lemma final_row_length: "length (final_row m s b row) = length row"
  by (simp add: final_row_def)

lemma final_row_nth:
  "j < length row \<Longrightarrow> final_row m s True row ! j =
     (if row ! j > max (target_vocab_size m - 1) (Max (set (take s row)))
      then target_unk_index m else row ! j)"
  by (simp add: final_row_def)

lemma final_row_source:
  assumes "j < s" "j < length row"
  shows "final_row m s b row ! j = row ! j"
proof -
  have "row ! j \<in> set (take s row)"
    using assms by (metis in_set_conv_nth length_take min_less_iff_conj nth_take)
  then have "row ! j \<le> Max (set (take s row))" by simp
  then show ?thesis using assms by (simp add: final_row_def)
qed

lemma take_final_row: "take s (final_row m s b row) = take s row"
  by (rule nth_equalityI) (simp_all add: final_row_length final_row_source)





lemma scenario_prepare:
  "prepare scenario_model [[5, 1, 6]] [[0, 1, 2]] (Some [[1, 6, 1]]) (Some [[1, 2, 3]]) =
     Inr ([[0]], [[5, 10, 6]], Some [[10, 6, 1]])"
  by code_simp










text \<open>
  The collapse of lines 128 to 132 as a rule on the rewritten indices of a training batch: a
  target position whose rewritten index t is an extended index (at least the vocabulary size)
  and exceeds every extended index of the rewritten source span of the same example becomes
  the unknown-token id; every other target position keeps its rewritten index.
\<close>

lemma prepare_target_collapse_rule:
  assumes ok: "prepare m source_tokens source_token_ids (Some tt) (Some ti) =
                 Inr (extra_zeros, modified_source_tokens, Some mtt)"
    and i: "i < length source_tokens" and k: "k < length (tt ! i)"
    and toks: "toks = example_tokens source_tokens (Some tt) i"
    and ids: "ids = example_token_ids source_token_ids (Some tt) (Some ti) i"
    and t: "t = rewrite_row m toks ids ! (width source_tokens + k)"
  shows "mtt ! i ! k =
           (if target_vocab_size m \<le> t \<and>
               (\<forall>s\<in>set (modified_source_tokens ! i). target_vocab_size m \<le> s \<longrightarrow> s < t)
            then target_unk_index m else t)"
proof -
  note p = prepare_Inr[OF ok i]
  from p(1) obtain tokens0 token_ids where
    cat: "cat_inputs source_tokens source_token_ids (Some tt) (Some ti) = Inr (tokens0, token_ids)"
    by blast
  note el = example_lengths[OF cat i]
  define s where "s = width source_tokens"
  define R where "R = rewrite_row m toks ids"
  define V where "V = target_vocab_size m"
  define U where "U = target_unk_index m"
  have len: "length ids = length toks" using el(1) by (simp add: toks ids)
  have lenR: "length R = length toks" by (simp add: R_def length_rewrite_row len)
  have ls: "length (source_tokens ! i) = s" "length (source_token_ids ! i) = s"
    using el(2,3) by (simp_all add: s_def)
  have ltoks: "length toks = s + length (tt ! i)" using ls by (simp add: toks example_tokens_def)
  have skl: "s + k < length toks" using k ltoks by simp
  have spos: "0 < s" using p(2) by (simp add: s_def)
  have tR: "t = R ! (s + k)" by (simp add: t R_def s_def)
  have ms: "modified_source_tokens ! i = take s R"
    using p(4) by (simp add: toks[symmetric] ids[symmetric] R_def[symmetric] s_def[symmetric] take_final_row)
  have "\<exists>mtt'. Some mtt = Some mtt' \<and> length mtt' = length source_tokens \<and>
        mtt' ! i = drop s (final_row m s True R)"
    using p(6) unfolding toks ids R_def s_def by simp
  then have mtt: "mtt ! i = drop s (final_row m s True R)" by auto
  have mk: "mtt ! i ! k = (if t > max (V - 1) (Max (set (take s R))) then U else t)"
    using skl lenR by (simp add: mtt final_row_length final_row_nth tR V_def U_def)
  have ne: "set (take s R) \<noteq> {}" using spos skl lenR by auto
  have cond: "t > max (V - 1) (Max (set (take s R))) \<longleftrightarrow>
      (V \<le> t \<and> (\<forall>x\<in>set (take s R). V \<le> x \<longrightarrow> x < t))"
  proof -
    have "Max (set (take s R)) < t \<longleftrightarrow> (\<forall>x\<in>set (take s R). x < t)"
      using ne by (simp add: Max_less_iff)
    then show ?thesis by auto
  qed
  have A: "mtt ! i ! k = (if V \<le> t \<and> (\<forall>x\<in>set (modified_source_tokens ! i). V \<le> x \<longrightarrow> x < t) then U else t)"
    unfolding mk cond ms by simp
  from A show ?thesis unfolding V_def U_def .
qed



section \<open>\<^verbatim>\<open>_prepare\<close> leaves its arguments as they are\<close>

lemma alloc_simps:
  "fst (alloc h t) = next_addr h"
  "next_addr (snd (alloc h t)) = Suc (next_addr h)"
  "cells (snd (alloc h t)) a = (if a = next_addr h then Some t else cells h a)"
  "load (snd (alloc h t)) a = (if a = next_addr h then t else load h a)"
  by (simp_all add: alloc_def load_def)

lemma store_row_simps:
  "next_addr (store_row h a i row) = next_addr h"
  "cells (store_row h a i row) b = (if b = a then Some ((load h a)[i := row]) else cells h b)"
  "load (store_row h a i row) b = (if b = a then (load h a)[i := row] else load h b)"
  by (simp_all add: store_row_def load_def)

lemma fill_frame:
  "next_addr (fill_unk_token_nums a uo is h) = next_addr h \<and>
   (\<forall>b. b \<noteq> a \<longrightarrow> cells (fill_unk_token_nums a uo is h) b = cells h b)"
  by (induction "is" arbitrary: h) (simp_all add: store_row_simps)

lemma load_frame: "cells h' b = cells h b \<Longrightarrow> load h' b = load h b"
  by (simp add: load_def)

lemma fill_value:
  "k \<le> n \<Longrightarrow> length (load h a) = n \<Longrightarrow> length uo = n \<Longrightarrow>
   load (fill_unk_token_nums a uo [k..<n] h) a = take k (load h a) @ map unique_inverse (drop k uo)"
proof (induction "n - k" arbitrary: k h)
  case 0
  then show ?case by simp
next
  case (Suc d)
  then have kn: "k < n" by simp
  let ?h = "store_row h a k (unique_inverse (uo ! k))"
  have len: "length (load ?h a) = n" using Suc.prems by (simp add: store_row_simps)
  have "load (fill_unk_token_nums a uo [Suc k..<n] ?h) a =
      take (Suc k) (load ?h a) @ map unique_inverse (drop (Suc k) uo)"
    using Suc.hyps(1)[of "Suc k" ?h] Suc.hyps(2) kn len Suc.prems by simp
  moreover have "take (Suc k) (load ?h a) = take k (load h a) @ [unique_inverse (uo ! k)]"
    using kn Suc.prems by (simp add: store_row_simps take_Suc_conv_app_nth)
  moreover have "drop k uo = uo ! k # drop (Suc k) uo"
    using kn Suc.prems by (simp add: Cons_nth_drop_Suc)
  ultimately show ?case using kn by (simp add: upt_conv_Cons)
qed

lemma collapse_loop_frame:
  "next_addr (snd (collapse_loop m s a is h)) = next_addr h \<and>
   (\<forall>b. b \<noteq> a \<longrightarrow> cells (snd (collapse_loop m s a is h)) b = cells h b)"
  by (induction "is" arbitrary: h) (simp_all add: store_row_simps split: sum.splits)

lemma collapse_loop_value:
  "k \<le> n \<Longrightarrow> length (load h a) = n \<Longrightarrow>
   (case traverse (collapse_row m s) (drop k (load h a)) of
      Inl e \<Rightarrow> fst (collapse_loop m s a [k..<n] h) = Some e
    | Inr ys \<Rightarrow> fst (collapse_loop m s a [k..<n] h) = None \<and>
               load (snd (collapse_loop m s a [k..<n] h)) a = take k (load h a) @ ys)"
proof (induction "n - k" arbitrary: k h)
  case 0
  then show ?case by simp
next
  case (Suc d)
  then have kn: "k < n" by simp
  let ?xs = "load h a"
  have dr: "drop k ?xs = ?xs ! k # drop (Suc k) ?xs"
    using kn Suc.prems by (simp add: Cons_nth_drop_Suc)
  have up: "[k..<n] = k # [Suc k..<n]" using kn by (simp add: upt_conv_Cons)
  show ?case
  proof (cases "collapse_row m s (?xs ! k)")
    case (Inl e)
    then show ?thesis unfolding dr up by simp
  next
    case (Inr row)
    let ?h = "store_row h a k row"
    have len: "length (load ?h a) = n" using Suc.prems by (simp add: store_row_simps)
    have dr': "drop (Suc k) (load ?h a) = drop (Suc k) ?xs" by (simp add: store_row_simps)
    have tk: "take (Suc k) (load ?h a) = take k ?xs @ [row]"
      using kn Suc.prems by (simp add: store_row_simps take_Suc_conv_app_nth)
    have IH: "(case traverse (collapse_row m s) (drop (Suc k) ?xs) of
      Inl e \<Rightarrow> fst (collapse_loop m s a [Suc k..<n] ?h) = Some e
    | Inr ys \<Rightarrow> fst (collapse_loop m s a [Suc k..<n] ?h) = None \<and>
               load (snd (collapse_loop m s a [Suc k..<n] ?h)) a = (take k ?xs @ [row]) @ ys)"
      using Suc.hyps(1)[of "Suc k" ?h] Suc.hyps(2) kn len unfolding dr' tk by simp
    show ?thesis unfolding dr up using Inr IH by (simp split: sum.splits)
  qed
qed

lemma fill_other: "b \<noteq> a \<Longrightarrow> load (fill_unk_token_nums a uo is h) b = load h b"
  using fill_frame[of a uo "is" h] by (simp add: load_def)

lemma fill_next: "next_addr (fill_unk_token_nums a uo is h) = next_addr h"
  using fill_frame[of a uo "is" h] by simp

lemma fill_all:
  "length (load h a) = length uo \<Longrightarrow>
   load (fill_unk_token_nums a uo [0..<length uo] h) a = map unique_inverse uo"
  using fill_value[of 0 "length uo" h a uo] by simp

lemma collapse_other: "b \<noteq> a \<Longrightarrow> load (snd (collapse_loop m s a is h)) b = load h b"
  using collapse_loop_frame[of m s a "is" h] by (simp add: load_def)

lemma collapse_next: "next_addr (snd (collapse_loop m s a is h)) = next_addr h"
  using collapse_loop_frame[of m s a "is" h] by simp

lemma collapse_all:
  "(case traverse (collapse_row m s) (load h a) of
      Inl e \<Rightarrow> fst (collapse_loop m s a [0..<length (load h a)] h) = Some e
    | Inr ys \<Rightarrow> fst (collapse_loop m s a [0..<length (load h a)] h) = None \<and>
               load (snd (collapse_loop m s a [0..<length (load h a)] h)) a = ys)"
  using collapse_loop_value[of 0 "length (load h a)" h a m s] by (simp split: sum.splits)

lemma rewrite_with_nums:
  "rewrite_with m tokens (unk_token_nums_row m tokens token_ids) = rewrite_row m tokens token_ids"
  by (simp add: rewrite_with_def rewrite_row_def)

lemma map2_rewrite_with:
  "length ts = length is \<Longrightarrow>
   map2 (rewrite_with m) ts (map unique_inverse (map2 (unk_only_row m) ts is)) =
   map2 (rewrite_row m) ts is"
  by (rule nth_equalityI)
     (simp_all add: rewrite_with_nums[symmetric] unk_token_nums_row_def)

lemma map_unique_inverse_unk_only:
  "map unique_inverse (map2 (unk_only_row m) ts is) = map2 (unk_token_nums_row m) ts is"
  by (auto simp: unk_token_nums_row_def)

lemma prepare_via_tail:
  "prepare m src sids tgt tids =
     (case cat_inputs src sids tgt tids of
        Inl e \<Rightarrow> Inl e
      | Inr (tokens0, token_ids) \<Rightarrow>
          prepare_tail m (length src) (width src) (tgt \<noteq> None) tokens0 token_ids)"
proof (cases "cat_inputs src sids tgt tids")
  case (Inl e)
  then show ?thesis by (simp add: prepare_def)
next
  case (Inr p)
  obtain tokens0 token_ids where p: "p = (tokens0, token_ids)" by (cases p)
  show ?thesis
  proof (cases tgt)
    case None
    then show ?thesis using Inr p by (simp add: prepare_def prepare_tail_def Let_def)
  next
    case (Some tt)
    then show ?thesis using Inr p
      by (simp add: prepare_def prepare_tail_def Let_def split: sum.splits)
  qed
qed

lemma heap_tail:
  fixes m :: pgn and hb :: heap and w :: nat
  assumes t0: "tokens0 < next_addr hb" and ti: "token_ids < next_addr hb"
    and lt: "length (load hb tokens0) = b" and li: "length (load hb token_ids) = b"
  defines "unk_only \<equiv> map2 (unk_only_row m) (load hb tokens0) (load hb token_ids)"
  defines "h1 \<equiv> snd (alloc hb (replicate b (replicate w 0)))"
  defines "h2 \<equiv> fill_unk_token_nums (next_addr hb) unk_only [0..<b] h1"
  defines "h3 \<equiv> snd (alloc h2 (map2 (rewrite_with m) (load h2 tokens0) (load h2 (next_addr hb))))"
  shows "load h2 (next_addr hb) = map2 (unk_token_nums_row m) (load hb tokens0) (load hb token_ids)"
    and "load h3 (next_addr hb) = map2 (unk_token_nums_row m) (load hb tokens0) (load hb token_ids)"
    and "load h3 (Suc (next_addr hb)) = map2 (rewrite_row m) (load hb tokens0) (load hb token_ids)"
    and "next_addr h2 = Suc (next_addr hb)" and "next_addr h3 = Suc (Suc (next_addr hb))"
    and "\<forall>a<next_addr hb. cells h3 a = cells hb a"
proof -
  have luo: "length unk_only = b" using lt li by (simp add: unk_only_def)
  have l1: "length (load h1 (next_addr hb)) = length unk_only"
    by (simp add: h1_def alloc_simps luo)
  have "load h2 (next_addr hb) = map unique_inverse unk_only"
    unfolding h2_def using fill_all[OF l1] luo by simp
  also have "\<dots> = map2 (unk_token_nums_row m) (load hb tokens0) (load hb token_ids)"
    unfolding unk_only_def by (rule map_unique_inverse_unk_only)
  finally show v2: "load h2 (next_addr hb) = map2 (unk_token_nums_row m) (load hb tokens0) (load hb token_ids)" .
  show n2: "next_addr h2 = Suc (next_addr hb)"
    by (simp add: h2_def fill_next h1_def alloc_simps)
  have t02: "load h2 tokens0 = load hb tokens0"
    using t0 by (simp add: h2_def fill_other h1_def alloc_simps)
  show "load h3 (next_addr hb) = map2 (unk_token_nums_row m) (load hb tokens0) (load hb token_ids)"
    using v2 n2 by (simp add: h3_def alloc_simps)
  have "map2 (rewrite_with m) (load h2 tokens0) (load h2 (next_addr hb)) =
      map2 (rewrite_row m) (load hb tokens0) (load hb token_ids)"
    unfolding t02 v2 map_unique_inverse_unk_only[symmetric]
    by (rule map2_rewrite_with) (simp add: lt li)
  then show "load h3 (Suc (next_addr hb)) = map2 (rewrite_row m) (load hb tokens0) (load hb token_ids)"
    using n2 by (simp add: h3_def alloc_simps)
  show "next_addr h3 = Suc (Suc (next_addr hb))" using n2 by (simp add: h3_def alloc_simps)
  have c2: "\<forall>a<next_addr hb. cells h2 a = cells hb a"
    using fill_frame[of "next_addr hb" unk_only "[0..<b]" h1]
    by (simp add: h2_def h1_def alloc_simps)
  show "\<forall>a<next_addr hb. cells h3 a = cells hb a"
    using c2 n2 by (simp add: h3_def alloc_simps)
qed

lemma heap_tail_refines:
  fixes m :: pgn and hb :: heap
  assumes t0: "tokens0 < next_addr hb" and ti: "token_ids < next_addr hb"
    and lt: "length (load hb tokens0) = b" and li: "length (load hb token_ids) = b"
  shows "fst (prepare_heap_tail m b s wt tokens0 token_ids hb) =
           prepare_tail m b s wt (load hb tokens0) (load hb token_ids)"
    and "\<forall>a<next_addr hb. cells (snd (prepare_heap_tail m b s wt tokens0 token_ids hb)) a = cells hb a"
    and "next_addr hb \<le> next_addr (snd (prepare_heap_tail m b s wt tokens0 token_ids hb))"
proof -
  define w where "w = width (load hb token_ids)"
  define unk_only where "unk_only = map2 (unk_only_row m) (load hb tokens0) (load hb token_ids)"
  define h1 where "h1 = snd (alloc hb (replicate b (replicate w 0)))"
  define h2 where "h2 = fill_unk_token_nums (next_addr hb) unk_only [0..<b] h1"
  define h3 where "h3 = snd (alloc h2 (map2 (rewrite_with m) (load h2 tokens0) (load h2 (next_addr hb))))"
  define nums where "nums = map2 (unk_token_nums_row m) (load hb tokens0) (load hb token_ids)"
  define tokens1 where "tokens1 = map2 (rewrite_row m) (load hb tokens0) (load hb token_ids)"
  define tk where "tk = Suc (next_addr hb)"
  define fh where "fh = (if \<not> wt then (None, h3) else collapse_loop m s tk [0..<b] h3)"
  have ht: "load h2 (next_addr hb) = nums" "load h3 (next_addr hb) = nums" "load h3 tk = tokens1"
    "next_addr h2 = tk" "next_addr h3 = Suc tk" "\<forall>a<next_addr hb. cells h3 a = cells hb a"
    using heap_tail[OF t0 ti lt li, of m w]
    unfolding unk_only_def h1_def h2_def h3_def nums_def tokens1_def tk_def by blast+
  have a1: "alloc hb (replicate b (replicate w 0)) = (next_addr hb, h1)"
    by (simp add: h1_def alloc_def)
  have a2: "alloc h2 (map2 (rewrite_with m) (load h2 tokens0) (load h2 (next_addr hb))) = (tk, h3)"
    using ht(4) by (simp add: h3_def tk_def alloc_def)
  have unf0: "prepare_heap_tail m b s wt tokens0 token_ids hb =
     (case fh of (failure, h4) \<Rightarrow>
        case failure of
           Some e \<Rightarrow> (Inl e, h4)
         | None \<Rightarrow>
             (case tensor_max (concat (map (take s) (load h4 (next_addr hb)))) of
                Inl e \<Rightarrow> (Inl e, h4)
              | Inr source_unk_count \<Rightarrow>
                  (Inr (replicate b (replicate (nat source_unk_count) 0),
                        map (take s) (load h4 tk),
                        if \<not> wt then None
                        else Some (map (drop s) (load h4 tk))), h4)))"
    unfolding prepare_heap_tail_def Let_def w_def[symmetric] unk_only_def[symmetric] a1 prod.case
      h2_def[symmetric] a2 fh_def[symmetric] ..
  have unf: "prepare_heap_tail m b s wt tokens0 token_ids hb =
     (case fst fh of
           Some e \<Rightarrow> (Inl e, snd fh)
         | None \<Rightarrow>
             (case tensor_max (concat (map (take s) (load (snd fh) (next_addr hb)))) of
                Inl e \<Rightarrow> (Inl e, snd fh)
              | Inr source_unk_count \<Rightarrow>
                  (Inr (replicate b (replicate (nat source_unk_count) 0),
                        map (take s) (load (snd fh) tk),
                        if \<not> wt then None
                        else Some (map (drop s) (load (snd fh) tk))), snd fh)))"
    unfolding unf0 by (simp add: case_prod_beta)
  have lt1: "length (load h3 tk) = b" using ht(3) lt li by (simp add: tokens1_def)
  have fr: "next_addr (snd fh) = next_addr h3 \<and> (\<forall>a. a \<noteq> tk \<longrightarrow> cells (snd fh) a = cells h3 a)"
    using collapse_loop_frame[of m s tk "[0..<b]" h3] by (simp add: fh_def)
  have numsfh: "load (snd fh) (next_addr hb) = nums"
    using fr ht(2) by (simp add: load_def tk_def)
  have cl: "(case traverse (collapse_row m s) tokens1 of
      Inl e \<Rightarrow> fst (collapse_loop m s tk [0..<b] h3) = Some e
    | Inr ys \<Rightarrow> fst (collapse_loop m s tk [0..<b] h3) = None \<and>
               load (snd (collapse_loop m s tk [0..<b] h3)) tk = ys)"
  proof -
    have "length tokens1 = b" using lt1 ht(3) by simp
    then show ?thesis using collapse_all[where m=m and s=s and h=h3 and a=tk] unfolding ht(3)
      by (simp split: sum.splits)
  qed
  show "fst (prepare_heap_tail m b s wt tokens0 token_ids hb) =
           prepare_tail m b s wt (load hb tokens0) (load hb token_ids)"
  proof (cases wt)
    case False
    then have "fh = (None, h3)" by (simp add: fh_def)
    then show ?thesis unfolding unf prepare_tail_def Let_def
      using False ht(2,3) by (simp add: nums_def tokens1_def split: sum.splits)
  next
    case True
    then have fh: "fh = collapse_loop m s tk [0..<b] h3" by (simp add: fh_def)
    show ?thesis
    proof (cases "traverse (collapse_row m s) tokens1")
      case (Inl e)
      then have "fst fh = Some e" using cl fh by simp
      then show ?thesis unfolding unf prepare_tail_def Let_def
        using True Inl by (simp add: tokens1_def)
    next
      case (Inr ys)
      then have "fst fh = None" "load (snd fh) tk = ys" using cl fh by simp_all
      then show ?thesis unfolding unf prepare_tail_def Let_def
        using True Inr numsfh by (simp add: tokens1_def nums_def split: sum.splits)
    qed
  qed
  have sndeq: "snd (prepare_heap_tail m b s wt tokens0 token_ids hb) = snd fh"
    unfolding unf by (simp split: option.splits sum.splits)
  show "\<forall>a<next_addr hb. cells (snd (prepare_heap_tail m b s wt tokens0 token_ids hb)) a = cells hb a"
    unfolding sndeq using fr ht(6) by (simp add: tk_def)
  show "next_addr hb \<le> next_addr (snd (prepare_heap_tail m b s wt tokens0 token_ids hb))"
    unfolding sndeq using fr ht(5) by (simp add: tk_def)
qed

lemma cat_inputs_None:
  "cat_inputs a b None x = Inr (ct, ci) \<Longrightarrow> ct = a \<and> ci = b"
  by (auto simp: cat_inputs_def Let_def split: if_splits)

lemma cat_inputs_lengths:
  assumes "cat_inputs a b t x = Inr (ct, ci)"
  shows "length ct = length a" "length ci = length a"
  using cat_inputs_shapes(3,4)[OF assms] by simp_all

lemma prepare_heap_refines:
  assumes s0: "src < next_addr h" and s1: "sids < next_addr h"
  shows "fst (prepare_heap m src sids tgt tids h) =
           prepare m (load h src) (load h sids) (map_option (load h) tgt) (map_option (load h) tids)"
    and "\<forall>a<next_addr h. cells (snd (prepare_heap m src sids tgt tids h)) a = cells h a"
    and "next_addr h \<le> next_addr (snd (prepare_heap m src sids tgt tids h))"
proof -
  let ?c = "cat_inputs (load h src) (load h sids) (map_option (load h) tgt) (map_option (load h) tids)"
  let ?B = "length (load h src)" and ?S = "width (load h src)"
  have all: "fst (prepare_heap m src sids tgt tids h) =
           prepare m (load h src) (load h sids) (map_option (load h) tgt) (map_option (load h) tids)
     \<and> (\<forall>a<next_addr h. cells (snd (prepare_heap m src sids tgt tids h)) a = cells h a)
     \<and> next_addr h \<le> next_addr (snd (prepare_heap m src sids tgt tids h))"
  proof (cases ?c)
    case (Inl e)
    then show ?thesis by (simp add: prepare_heap_def prepare_via_tail)
  next
    case (Inr p)
    obtain ct ci where p: "p = (ct, ci)" by (cases p)
    have c: "?c = Inr (ct, ci)" using Inr p by simp
    note len = cat_inputs_lengths[OF c]
    show ?thesis
    proof (cases tgt)
      case None
      then have eq: "ct = load h src" "ci = load h sids" using c cat_inputs_None by auto
      have ph: "prepare_heap m src sids tgt tids h = prepare_heap_tail m ?B ?S False src sids h"
        using None c by (simp add: prepare_heap_def)
      have pp: "prepare m (load h src) (load h sids) (map_option (load h) tgt) (map_option (load h) tids)
          = prepare_tail m ?B ?S False (load h src) (load h sids)"
        using None c eq by (simp add: prepare_via_tail)
      have li: "length (load h sids) = ?B" using len(2) eq by simp
      from heap_tail_refines[OF s0 s1 refl li, of m ?S False] show ?thesis
        unfolding ph pp by blast
    next
      case (Some ta)
      define ha where "ha = snd (alloc h ct)"
      define hb where "hb = snd (alloc ha ci)"
      have ph: "prepare_heap m src sids tgt tids h =
          prepare_heap_tail m ?B ?S True (next_addr h) (Suc (next_addr h)) hb"
        using Some c by (simp add: prepare_heap_def case_prod_beta alloc_simps ha_def hb_def)
      have pp: "prepare m (load h src) (load h sids) (map_option (load h) tgt) (map_option (load h) tids)
          = prepare_tail m ?B ?S True ct ci"
        using Some c by (simp add: prepare_via_tail)
      have nb: "next_addr hb = Suc (Suc (next_addr h))" by (simp add: hb_def ha_def alloc_simps)
      have l0: "load hb (next_addr h) = ct" by (simp add: hb_def ha_def alloc_simps)
      have l1: "load hb (Suc (next_addr h)) = ci" by (simp add: hb_def ha_def alloc_simps)
      have cb: "\<forall>a<next_addr h. cells hb a = cells h a" by (simp add: hb_def ha_def alloc_simps)
      have t0: "next_addr h < next_addr hb" and t1: "Suc (next_addr h) < next_addr hb"
        using nb by simp_all
      have lt: "length (load hb (next_addr h)) = ?B" and li: "length (load hb (Suc (next_addr h))) = ?B"
        using len l0 l1 by simp_all
      from heap_tail_refines[OF t0 t1 lt li, of m ?S True] show ?thesis
        unfolding ph pp l0 l1 using cb nb by auto
    qed
  qed
  from all show "fst (prepare_heap m src sids tgt tids h) =
           prepare m (load h src) (load h sids) (map_option (load h) tgt) (map_option (load h) tids)"
    and "\<forall>a<next_addr h. cells (snd (prepare_heap m src sids tgt tids h)) a = cells h a"
    and "next_addr h \<le> next_addr (snd (prepare_heap m src sids tgt tids h))" by blast+
qed


text \<open>
  Claim C9. \<^verbatim>\<open>_prepare\<close> writes in place only into tensors that it has allocated itself:
  the tensors of the batch are in the store after the call as before it, and a second call on
  the same arguments, in the store that the first call left, returns what the first returned,
  the extended source indices, the extended target indices and the extra-slot buffer (or the
  same error).
\<close>

theorem prepare_twice_identical:
  assumes "source_tokens < next_addr h" and "source_token_ids < next_addr h"
    and "\<forall>a. target_tokens = Some a \<longrightarrow> a < next_addr h"
    and "\<forall>a. target_token_ids = Some a \<longrightarrow> a < next_addr h"
    and "h' = snd (prepare_heap m source_tokens source_token_ids target_tokens target_token_ids h)"
  shows "fst (prepare_heap m source_tokens source_token_ids target_tokens target_token_ids h') =
           fst (prepare_heap m source_tokens source_token_ids target_tokens target_token_ids h)
       \<and> load h' source_tokens = load h source_tokens
       \<and> load h' source_token_ids = load h source_token_ids
       \<and> map_option (load h') target_tokens = map_option (load h) target_tokens
       \<and> map_option (load h') target_token_ids = map_option (load h) target_token_ids"
proof -
  note r = prepare_heap_refines[OF assms(1,2), of m target_tokens target_token_ids]
  have same: "load h' a = load h a" if "a < next_addr h" for a
    using r(2) that by (simp add: load_def assms(5))
  have le: "next_addr h \<le> next_addr h'" using r(3) by (simp add: assms(5))
  have i0: "load h' source_tokens = load h source_tokens" using same assms(1) by simp
  have i1: "load h' source_token_ids = load h source_token_ids" using same assms(2) by simp
  have i2: "map_option (load h') target_tokens = map_option (load h) target_tokens"
    using same assms(3) by (cases target_tokens) simp_all
  have i3: "map_option (load h') target_token_ids = map_option (load h) target_token_ids"
    using same assms(4) by (cases target_token_ids) simp_all
  have s0: "source_tokens < next_addr h'" and s1: "source_token_ids < next_addr h'"
    using assms(1,2) le by simp_all
  have "fst (prepare_heap m source_tokens source_token_ids target_tokens target_token_ids h') =
      prepare m (load h' source_tokens) (load h' source_token_ids)
        (map_option (load h') target_tokens) (map_option (load h') target_token_ids)"
    by (rule prepare_heap_refines(1)[OF s0 s1])
  also have "\<dots> = fst (prepare_heap m source_tokens source_token_ids target_tokens target_token_ids h)"
    unfolding i0 i1 i2 i3 by (rule r(1)[symmetric])
  finally show ?thesis using i0 i1 i2 i3 by simp
qed


text \<open>The theorem at the scenario, its four tensors at the addresses 0 to 3 of the store.\<close>

theorem prepare_twice_identical_witness:
  "(0::nat) < next_addr scenario_heap \<and> (1::nat) < next_addr scenario_heap
   \<and> (2::nat) < next_addr scenario_heap \<and> (3::nat) < next_addr scenario_heap
   \<and> fst (prepare_heap scenario_model 0 1 (Some 2) (Some 3) scenario_heap) =
        Inr ([[0]], [[5, 10, 6]], Some [[10, 6, 1]])
   \<and> fst (prepare_heap scenario_model 0 1 (Some 2) (Some 3)
          (snd (prepare_heap scenario_model 0 1 (Some 2) (Some 3) scenario_heap))) =
        Inr ([[0]], [[5, 10, 6]], Some [[10, 6, 1]])"
proof -
  have h0: "(0::nat) < next_addr scenario_heap" and h1: "(1::nat) < next_addr scenario_heap"
    and h2: "(2::nat) < next_addr scenario_heap" and h3: "(3::nat) < next_addr scenario_heap"
    by (simp_all add: scenario_heap_def)
  have t2: "\<forall>a. Some (2::nat) = Some a \<longrightarrow> a < next_addr scenario_heap" using h2 by simp
  have t3: "\<forall>a. Some (3::nat) = Some a \<longrightarrow> a < next_addr scenario_heap" using h3 by simp
  have first: "fst (prepare_heap scenario_model 0 1 (Some 2) (Some 3) scenario_heap) =
        Inr ([[0]], [[5, 10, 6]], Some [[10, 6, 1]])"
    by code_simp
  from prepare_twice_identical[OF h0 h1 t2 t3 refl, of scenario_model] first h0 h1 h2 h3
  show ?thesis by simp
qed

section \<open>Properties of \<^verbatim>\<open>decode\<close>\<close>

lemma first_occurrences_snoc:
  "first_occurrences (xs @ [x]) =
     (if x \<in> set xs then first_occurrences xs else first_occurrences xs @ [x])"
proof (induction xs)
  case Nil
  then show ?case by simp
next
  case (Cons y ys)
  have "filter (\<lambda>z. z \<noteq> y) (first_occurrences ys) = first_occurrences ys" if "y \<notin> set ys"
    using that by (auto simp: filter_id_conv set_first_occurrences)
  then show ?case using Cons by auto
qed

lemma index_of_append_notin:
  "x \<notin> set xs \<Longrightarrow> index_of (xs @ ys) x = length xs + index_of ys x"
  by (induction xs) auto

lemma index_of_append_in:
  "x \<in> set xs \<Longrightarrow> index_of (xs @ ys) x = index_of xs x"
  by (induction xs) auto

lemma first_occurrences_append:
  "first_occurrences (xs @ ys) = first_occurrences xs @ filter (\<lambda>y. y \<notin> set xs) (first_occurrences ys)"
proof (induction ys rule: rev_induct)
  case Nil
  then show ?case by simp
next
  case (snoc y ys)
  have "first_occurrences ((xs @ ys) @ [y]) =
     (if y \<in> set (xs @ ys) then first_occurrences (xs @ ys) else first_occurrences (xs @ ys) @ [y])"
    by (rule first_occurrences_snoc)
  then show ?case using snoc by (auto simp: first_occurrences_snoc)
qed

lemma length_first_occurrences: "length (first_occurrences xs) = card (set xs)"
  using distinct_card[OF distinct_first_occurrences, of xs] by (simp add: set_first_occurrences)

lemma index_of_first_occurrences:
  assumes "x \<in> set xs"
  shows "index_of (first_occurrences xs) x = card (set (takeWhile (\<lambda>y. y \<noteq> x) xs))"
proof -
  let ?p = "takeWhile (\<lambda>y. y \<noteq> x) xs"
  let ?d = "dropWhile (\<lambda>y. y \<noteq> x) xs"
  have dne: "?d \<noteq> []" using assms by (simp add: dropWhile_eq_Nil_conv)
  then have "\<not> hd ?d \<noteq> x" by (rule hd_dropWhile)
  then have "?d = x # tl ?d" using dne by (cases ?d) simp_all
  then have "xs = ?p @ x # tl ?d" using takeWhile_dropWhile_id[of "\<lambda>y. y \<noteq> x" xs] by simp
  then obtain zs where xs: "xs = ?p @ x # zs" by blast
  have notin: "x \<notin> set ?p" by (auto dest: set_takeWhileD)
  have "first_occurrences xs = first_occurrences ?p @ filter (\<lambda>y. y \<notin> set ?p) (first_occurrences (x # zs))"
    using first_occurrences_append[of ?p "x # zs"] xs by simp
  also have "\<dots> = first_occurrences ?p @ x # filter (\<lambda>y. y \<notin> set ?p) (filter (\<lambda>y. y \<noteq> x) (first_occurrences zs))"
    using notin by simp
  finally have "index_of (first_occurrences xs) x = length (first_occurrences ?p)"
    using notin by (simp add: index_of_append_notin set_first_occurrences)
  then show ?thesis by (simp add: length_first_occurrences)
qed

lemma fold_append_new:
  "fold (\<lambda>tok a. if tok \<in> set a then a else a @ [tok]) xs (first_occurrences ys) =
     first_occurrences (ys @ xs)"
proof (induction xs arbitrary: ys)
  case Nil
  then show ?case by simp
next
  case (Cons x xs)
  have "(if x \<in> set (first_occurrences ys) then first_occurrences ys else first_occurrences ys @ [x])
      = first_occurrences (ys @ [x])"
    by (simp add: first_occurrences_snoc set_first_occurrences)
  then show ?case using Cons[of "ys @ [x]"] by simp
qed

lemma upt_Suc_shift: "[0..<Suc n] = 0 # map Suc [0..<n]"
  by (simp add: upt_conv_Cons map_Suc_upt del: upt_Suc)

lemma all_less_Suc_shift: "(\<forall>k<Suc n. P k) \<longleftrightarrow> P 0 \<and> (\<forall>k<n. P (Suc k))"
  by (metis less_Suc_eq_0_disj)

lemma collect_unk_tokens_char:
  "collect_unk_tokens m src i ts acc =
     (if \<forall>k<length ts. ts ! k = target_unk_index m \<longrightarrow> i + k < length src
      then Inr (fold (\<lambda>tok a. if tok \<in> set a then a else a @ [tok])
                  (map (\<lambda>k. src ! (i + k))
                     (filter (\<lambda>k. ts ! k = target_unk_index m) [0..<length ts])) acc)
      else Inl IndexError)"
proof (induction ts arbitrary: i acc)
  case Nil
  then show ?case by simp
next
  case (Cons t ts)
  have shift: "map (\<lambda>k. src ! (i + k)) (filter (\<lambda>k. (h # ts) ! k = target_unk_index m) (map Suc [0..<length ts]))
      = map (\<lambda>k. src ! Suc (i + k)) (filter (\<lambda>k. ts ! k = target_unk_index m) [0..<length ts])" for h
    by (simp add: filter_map comp_def)
  show ?case
    unfolding length_Cons upt_Suc_shift all_less_Suc_shift
    by (auto simp: Cons.IH shift Let_def simp del: upt_Suc)
qed

lemma unk_tokens_char:
  "collect_unk_tokens m src 0 stt [] =
     (if unk_positions_in_source m src stt
      then Inr (first_occurrences (unk_candidates m src stt))
      else Inl IndexError)"
proof -
  have "first_occurrences [] = ([]::string list)" by simp
  then have "fold (\<lambda>tok a. if tok \<in> set a then a else a @ [tok]) xs [] = first_occurrences xs"
    for xs :: "string list"
    using fold_append_new[of xs "[]"] by simp
  then show ?thesis
    unfolding collect_unk_tokens_char unk_positions_in_source_def unk_candidates_def
    by (simp add: list_all_iff)
qed

lemma traverse_Inr_iff:
  "traverse f xs = Inr ys \<longleftrightarrow> (\<forall>x\<in>set xs. \<exists>y. f x = Inr y) \<and> ys = map (\<lambda>x. projr (f x)) xs"
proof (induction xs arbitrary: ys)
  case Nil
  then show ?case by auto
next
  case (Cons x xs)
  show ?case
  proof (cases "f x")
    case (Inl e)
    then show ?thesis by auto
  next
    case fx: (Inr y)
    show ?thesis
    proof (cases "traverse f xs")
      case (Inl e)
      then have "\<not> (\<forall>x\<in>set xs. \<exists>y. f x = Inr y)" using Cons.IH by auto
      then show ?thesis using fx Inl by auto
    next
      case (Inr zs)
      then have "(\<forall>x\<in>set xs. \<exists>y. f x = Inr y) \<and> zs = map (\<lambda>x. projr (f x)) xs"
        using Cons.IH by blast
      then show ?thesis using fx Inr by auto
    qed
  qed
qed

lemma take_index_of: "take (index_of xs e) xs = takeWhile (\<lambda>x. x \<noteq> e) xs"
  by (induction xs) auto

lemma till_end_symbol_takeWhile:
  "till_end_symbol m indices = takeWhile (\<lambda>x. x \<noteq> end_index m) indices"
proof (cases "end_index m \<in> set indices")
  case True
  then show ?thesis by (simp add: till_end_symbol_def take_index_of)
next
  case False
  then have "\<forall>x\<in>set indices. x \<noteq> end_index m" by auto
  then have tw: "takeWhile (\<lambda>x. x \<noteq> end_index m) indices = indices"
    by (rule takeWhile_eq_all_conv[THEN iffD2])
  show ?thesis unfolding till_end_symbol_def tw using False by simp
qed

lemma token_of_index_Inr:
  "token_of_index m vocab us x = Inr y \<longleftrightarrow>
     (x < target_vocab_size m \<and> vocab x = Some y) \<or>
     (target_vocab_size m \<le> x \<and> nat (x - target_vocab_size m) < length us \<and>
        y = us ! nat (x - target_vocab_size m))"
  by (auto simp: token_of_index_def Let_def split: option.splits)

lemma top_hypothesis_Inr:
  "top_hypothesis p = Inr indices \<longleftrightarrow>
     p = Hypothesis indices \<or> (\<exists>rest. p = Beam (indices # rest))"
  by (auto simp: top_hypothesis_def split: prediction.splits list.splits)


lemma scenario_unk_candidates:
  "unk_candidates scenario_model (meta_source_tokens scenario_metadata) [5, 1, 6, 1, 1, 0, 0] =
     [''zorblax'', ''zorblax'', ''quux'']"
  by (simp add: unk_candidates_def scenario_model_def scenario_metadata_def upt_rec)

lemma scenario_unk_positions:
  "unk_positions_in_source scenario_model (meta_source_tokens scenario_metadata) [5, 1, 6, 1, 1, 0, 0]"
  by (simp add: unk_positions_in_source_def scenario_model_def scenario_metadata_def upt_rec)


text \<open>
  The body of the loop of \<^verbatim>\<open>decode\<close> for one example: when it returns, and the tokens
  it returns.
\<close>

lemma decode_example_char:
  "decode_example m vocab predicted md source_to_target = Inr tokens \<longleftrightarrow>
     (\<exists>indices.
        (predicted = Hypothesis indices \<or> (\<exists>rest. predicted = Beam (indices # rest))) \<and>
        unk_positions_in_source m (meta_source_tokens md) source_to_target \<and>
        (\<forall>x\<in>set (takeWhile (\<lambda>x. x \<noteq> end_index m) indices).
           (x < target_vocab_size m \<longrightarrow> x \<in> dom vocab) \<and>
           (target_vocab_size m \<le> x \<longrightarrow>
              nat (x - target_vocab_size m) <
                length (first_occurrences (unk_candidates m (meta_source_tokens md) source_to_target)))) \<and>
        tokens =
          map (\<lambda>x. if x < target_vocab_size m then the (vocab x)
                    else first_occurrences (unk_candidates m (meta_source_tokens md) source_to_target)
                           ! nat (x - target_vocab_size m))
            (takeWhile (\<lambda>x. x \<noteq> end_index m) indices))"
  (is "?L \<longleftrightarrow> ?R")
proof -
  define us where "us = first_occurrences (unk_candidates m (meta_source_tokens md) source_to_target)"
  define V where "V = target_vocab_size m"
  have tok_ok: "(\<exists>y. token_of_index m vocab us x = Inr y) \<longleftrightarrow>
      (x < V \<longrightarrow> x \<in> dom vocab) \<and> (V \<le> x \<longrightarrow> nat (x - V) < length us)" for x
    unfolding token_of_index_Inr V_def by (cases "x < target_vocab_size m") auto
  have tok_val: "projr (token_of_index m vocab us x) = (if x < V then the (vocab x) else us ! nat (x - V))"
    if "\<exists>y. token_of_index m vocab us x = Inr y" for x
  proof -
    from that obtain y where y: "token_of_index m vocab us x = Inr y" by blast
    then have "y = (if x < V then the (vocab x) else us ! nat (x - V))"
      unfolding token_of_index_Inr V_def by auto
    then show ?thesis using y by simp
  qed
  have body: "(case collect_unk_tokens m (meta_source_tokens md) 0 source_to_target [] of
             Inl e \<Rightarrow> Inl e
           | Inr unk_tokens \<Rightarrow> traverse (token_of_index m vocab unk_tokens) ixs) = Inr tokens
      \<longleftrightarrow> unk_positions_in_source m (meta_source_tokens md) source_to_target \<and>
          (\<forall>x\<in>set ixs. (x < V \<longrightarrow> x \<in> dom vocab) \<and> (V \<le> x \<longrightarrow> nat (x - V) < length us)) \<and>
          tokens = map (\<lambda>x. if x < V then the (vocab x) else us ! nat (x - V)) ixs" for ixs
  proof (cases "unk_positions_in_source m (meta_source_tokens md) source_to_target")
    case False
    then show ?thesis by (simp add: unk_tokens_char)
  next
    case True
    have "traverse (token_of_index m vocab us) ixs = Inr tokens \<longleftrightarrow>
       (\<forall>x\<in>set ixs. (x < V \<longrightarrow> x \<in> dom vocab) \<and> (V \<le> x \<longrightarrow> nat (x - V) < length us)) \<and>
          tokens = map (\<lambda>x. if x < V then the (vocab x) else us ! nat (x - V)) ixs"
      unfolding traverse_Inr_iff using tok_ok tok_val by (auto simp: map_eq_conv)
    then show ?thesis using True by (simp add: unk_tokens_char us_def)
  qed
  show ?thesis
  proof (cases "top_hypothesis predicted")
    case (Inl e)
    then have "\<not> ?L" by (simp add: decode_example_def)
    moreover have "\<not> ?R" using Inl top_hypothesis_Inr[of predicted] by auto
    ultimately show ?thesis by blast
  next
    case (Inr indices0)
    have uniq: "(predicted = Hypothesis indices \<or> (\<exists>rest. predicted = Beam (indices # rest))) \<longleftrightarrow>
        indices = indices0" for indices
      using Inr top_hypothesis_Inr[of predicted indices] by auto
    have "?L \<longleftrightarrow> (case collect_unk_tokens m (meta_source_tokens md) 0 source_to_target [] of
             Inl e \<Rightarrow> Inl e
           | Inr unk_tokens \<Rightarrow> traverse (token_of_index m vocab unk_tokens)
               (takeWhile (\<lambda>x. x \<noteq> end_index m) indices0)) = Inr tokens"
      by (simp add: decode_example_def Inr till_end_symbol_takeWhile)
    also have "\<dots> \<longleftrightarrow> ?R"
      unfolding body uniq us_def V_def by simp
    finally show ?thesis .
  qed
qed

text \<open>\<^verbatim>\<open>decode\<close> runs the body on the examples that the three zipped sequences share,
  each with its own metadata and its own row of \<^verbatim>\<open>source_to_target\<close>.\<close>

lemma traverse_Inr_nth:
  "traverse f xs = Inr ys \<longleftrightarrow>
     length ys = length xs \<and> (\<forall>i<length xs. f (xs ! i) = Inr (ys ! i))"
proof -
  have "(\<forall>x\<in>set xs. \<exists>y. f x = Inr y) \<and> ys = map (\<lambda>x. projr (f x)) xs \<longleftrightarrow>
      length ys = length xs \<and> (\<forall>i<length xs. f (xs ! i) = Inr (ys ! i))" (is "?A \<longleftrightarrow> ?B")
  proof
    assume a: ?A
    then have len: "length ys = length xs" by simp
    have "f (xs ! i) = Inr (ys ! i)" if "i < length xs" for i
    proof -
      from a that obtain y where "f (xs ! i) = Inr y" by (meson nth_mem)
      then show ?thesis using a that by simp
    qed
    then show ?B using len by blast
  next
    assume b: ?B
    have "\<exists>y. f x = Inr y" if "x \<in> set xs" for x
      using b that by (metis in_set_conv_nth)
    moreover have "ys = map (\<lambda>x. projr (f x)) xs"
      using b by (intro nth_equalityI) simp_all
    ultimately show ?A by blast
  qed
  then show ?thesis unfolding traverse_Inr_iff .
qed

lemma decode_nth:
  "decode m vocab predicted_indices metadata source_to_target = Inr all_predicted_tokens \<longleftrightarrow>
     length all_predicted_tokens =
       min (min (length predicted_indices) (length metadata)) (length source_to_target) \<and>
     (\<forall>i<length all_predicted_tokens.
        decode_example m vocab (predicted_indices ! i) (metadata ! i) (source_to_target ! i) =
          Inr (all_predicted_tokens ! i))"
  unfolding decode_def traverse_Inr_nth by auto


text \<open>
  Claim C5. \<^verbatim>\<open>decode\<close> returns the list \<open>all_predicted_tokens\<close> exactly when the list
  has one entry for each example that predictions, metadata and \<^verbatim>\<open>source_to_target\<close>
  share and, for every example i, the predictions are a vector or a beam with a first
  hypothesis, every unknown position of the example's row of \<^verbatim>\<open>source_to_target\<close> has
  a literal source token in the example's metadata, and every index before the first end
  symbol is in the vocabulary or within the example's out-of-vocabulary list. Entry i holds
  the tokens of the top hypothesis cut at the first end symbol (all of it when there is none):
  an index below the vocabulary size gives its vocabulary token, an index at or above it gives
  the entry at rank index - vocabulary size of the first-occurrence-ordered list of the
  literal source tokens at the unknown source positions of example i.
\<close>

theorem decode_tokens:
  "decode m vocab predicted_indices metadata source_to_target = Inr all_predicted_tokens \<longleftrightarrow>
     length all_predicted_tokens =
       min (min (length predicted_indices) (length metadata)) (length source_to_target) \<and>
     (\<forall>i<length all_predicted_tokens.
        \<exists>indices.
          (predicted_indices ! i = Hypothesis indices \<or>
             (\<exists>rest. predicted_indices ! i = Beam (indices # rest))) \<and>
          unk_positions_in_source m (meta_source_tokens (metadata ! i)) (source_to_target ! i) \<and>
          (\<forall>x\<in>set (takeWhile (\<lambda>x. x \<noteq> end_index m) indices).
             (x < target_vocab_size m \<longrightarrow> x \<in> dom vocab) \<and>
             (target_vocab_size m \<le> x \<longrightarrow>
                nat (x - target_vocab_size m) <
                  length (first_occurrences
                    (unk_candidates m (meta_source_tokens (metadata ! i)) (source_to_target ! i))))) \<and>
          all_predicted_tokens ! i =
            map (\<lambda>x. if x < target_vocab_size m then the (vocab x)
                      else first_occurrences
                             (unk_candidates m (meta_source_tokens (metadata ! i)) (source_to_target ! i))
                           ! nat (x - target_vocab_size m))
              (takeWhile (\<lambda>x. x \<noteq> end_index m) indices))"
  unfolding decode_nth decode_example_char ..


text \<open>The theorem at a batch of two examples: the scenario with a beam of two hypotheses, the
  best one with an end symbol, and a second source "a blip" with a single hypothesis without
  an end symbol.\<close>

theorem decode_tokens_witness:
  "decode scenario_model scenario_vocab
     [Beam [[10, 6, 11, 3, 5], [5, 5, 5, 5, 5]], Hypothesis [5, 10, 9]]
     [scenario_metadata, \<lparr>meta_source_tokens = [''a'', ''blip'']\<rparr>]
     [[5, 1, 6, 1, 1, 0, 0], [4, 1]] =
   Inr [[''zorblax'', ''ran'', ''quux''], [''the'', ''blip'', ''cat'']]"
proof -
  let ?preds = "[Beam [[10, 6, 11, 3, 5], [5, 5, 5, 5, 5]], Hypothesis [5, 10, 9]]"
  let ?mds = "[scenario_metadata, \<lparr>meta_source_tokens = [''a'', ''blip'']\<rparr>]"
  let ?stts = "[[5, 1, 6, 1, 1, 0, 0], [4, 1 :: int]]"
  let ?out = "[[''zorblax'', ''ran'', ''quux''], [''the'', ''blip'', ''cat'']]"
  let ?P = "\<lambda>i indices.
          (?preds ! i = Hypothesis indices \<or> (\<exists>rest. ?preds ! i = Beam (indices # rest))) \<and>
          unk_positions_in_source scenario_model (meta_source_tokens (?mds ! i)) (?stts ! i) \<and>
          (\<forall>x\<in>set (takeWhile (\<lambda>x. x \<noteq> end_index scenario_model) indices).
             (x < target_vocab_size scenario_model \<longrightarrow> x \<in> dom scenario_vocab) \<and>
             (target_vocab_size scenario_model \<le> x \<longrightarrow>
                nat (x - target_vocab_size scenario_model) <
                  length (first_occurrences
                    (unk_candidates scenario_model (meta_source_tokens (?mds ! i)) (?stts ! i))))) \<and>
          ?out ! i =
            map (\<lambda>x. if x < target_vocab_size scenario_model then the (scenario_vocab x)
                      else first_occurrences
                             (unk_candidates scenario_model (meta_source_tokens (?mds ! i)) (?stts ! i))
                           ! nat (x - target_vocab_size scenario_model))
              (takeWhile (\<lambda>x. x \<noteq> end_index scenario_model) indices)"
  have V: "target_vocab_size scenario_model = 10" "end_index scenario_model = 3"
    by (simp_all add: scenario_model_def)
  have us0: "first_occurrences (unk_candidates scenario_model (meta_source_tokens scenario_metadata)
       [5, 1, 6, 1, 1, 0, 0]) = [''zorblax'', ''quux'']"
    by (simp add: scenario_unk_candidates)
  have us1: "first_occurrences (unk_candidates scenario_model [''a'', ''blip''] [4, 1]) = [''blip'']"
    by (simp add: unk_candidates_def scenario_model_def upt_rec)
  have up1: "unk_positions_in_source scenario_model [''a'', ''blip''] [4, 1]"
    by (simp add: unk_positions_in_source_def scenario_model_def upt_rec)
  have p0: "?P 0 [10, 6, 11, 3, 5]"
    using scenario_unk_positions by (simp add: V us0 scenario_vocab_def)
  have p1: "?P 1 [5, 10, 9]"
    using up1 by (simp add: V us1 scenario_vocab_def)
  have len: "length ?out = min (min (length ?preds) (length ?mds)) (length ?stts)" by simp
  have "\<exists>indices. ?P i indices" if "i < length ?out" for i
  proof -
    from that have "i = 0 \<or> i = 1" by auto
    then show ?thesis using p0 p1 by blast
  qed
  then show ?thesis
    unfolding decode_tokens using len by blast
qed


text \<open>
  Claim C10. The list \<^verbatim>\<open>unk_tokens\<close> that \<^verbatim>\<open>decode\<close> builds depends on the
  literal tokens at the unknown source positions only: it has no duplicates, holds exactly
  those literal tokens, one slot for each distinct literal, and the slot of a token is the
  number of distinct literals that occur before its first occurrence, so that a repeated
  literal takes no further slot and does not push the later tokens.
\<close>

theorem unk_tokens_dedup_by_literal:
  assumes "collect_unk_tokens m src 0 source_to_target [] = Inr unk_tokens"
  shows "distinct unk_tokens
     \<and> set unk_tokens = set (unk_candidates m src source_to_target)
     \<and> length unk_tokens = card (set (unk_candidates m src source_to_target))
     \<and> (\<forall>token\<in>set (unk_candidates m src source_to_target).
          index_of unk_tokens token =
            card (set (takeWhile (\<lambda>y. y \<noteq> token) (unk_candidates m src source_to_target))) \<and>
          unk_tokens ! index_of unk_tokens token = token)
     \<and> (\<forall>i<length source_to_target. source_to_target ! i = target_unk_index m \<longrightarrow>
          src ! i \<in> set (unk_candidates m src source_to_target))"
proof -
  let ?c = "unk_candidates m src source_to_target"
  have us: "unk_tokens = first_occurrences ?c"
    using assms by (simp add: unk_tokens_char split: if_splits)
  have "index_of unk_tokens token = card (set (takeWhile (\<lambda>y. y \<noteq> token) ?c)) \<and>
          unk_tokens ! index_of unk_tokens token = token" if "token \<in> set ?c" for token
  proof -
    have "token \<in> set unk_tokens" using that by (simp add: us set_first_occurrences)
    then have "unk_tokens ! index_of unk_tokens token = token" by (rule nth_index_of)
    then show ?thesis using that by (simp add: us index_of_first_occurrences)
  qed
  moreover have "src ! i \<in> set ?c" if "i < length source_to_target" "source_to_target ! i = target_unk_index m" for i
    using that by (auto simp: unk_candidates_def)
  moreover have "distinct unk_tokens" "set unk_tokens = set ?c" "length unk_tokens = card (set ?c)"
    by (simp_all add: us distinct_first_occurrences set_first_occurrences length_first_occurrences)
  ultimately show ?thesis by blast
qed

text \<open>The theorem at the scenario: "zorblax" at two unknown positions shares slot 0, and "quux",
  at the third unknown position, has slot 1.\<close>

theorem unk_tokens_dedup_by_literal_witness:
  "collect_unk_tokens scenario_model [''the'', ''zorblax'', ''ran'', ''zorblax'', ''quux''] 0
      [5, 1, 6, 1, 1, 0, 0] [] = Inr [''zorblax'', ''quux'']
   \<and> ''quux'' \<in> set (unk_candidates scenario_model [''the'', ''zorblax'', ''ran'', ''zorblax'', ''quux'']
        [5, 1, 6, 1, 1, 0, 0])
   \<and> index_of [''zorblax'', ''quux''] ''quux'' =
        card (set (takeWhile (\<lambda>y. y \<noteq> ''quux'')
          (unk_candidates scenario_model [''the'', ''zorblax'', ''ran'', ''zorblax'', ''quux'']
             [5, 1, 6, 1, 1, 0, 0])))
   \<and> index_of [''zorblax'', ''quux''] ''quux'' = 1
   \<and> [''zorblax'', ''quux''] ! index_of [''zorblax'', ''quux''] ''quux'' = ''quux''
   \<and> length [''zorblax'', ''quux''] =
        card (set (unk_candidates scenario_model [''the'', ''zorblax'', ''ran'', ''zorblax'', ''quux'']
             [5, 1, 6, 1, 1, 0, 0]))"
proof -
  let ?src = "[''the'', ''zorblax'', ''ran'', ''zorblax'', ''quux'']"
  let ?stt = "[5, 1, 6, 1, 1, 0, 0 :: int]"
  have h: "collect_unk_tokens scenario_model ?src 0 ?stt [] = Inr [''zorblax'', ''quux'']"
    by (simp add: scenario_model_def)
  have c: "unk_candidates scenario_model ?src ?stt = [''zorblax'', ''zorblax'', ''quux'']"
    by (simp add: unk_candidates_def scenario_model_def upt_rec)
  have mem: "''quux'' \<in> set (unk_candidates scenario_model ?src ?stt)" unfolding c by simp
  have one: "index_of [''zorblax'', ''quux''] ''quux'' = 1" by simp
  from unk_tokens_dedup_by_literal[OF h] mem h one show ?thesis by blast
qed

section \<open>Properties of the forward loop\<close>

lemma sigmoid_0: "sigmoid 0 = 1 / 2" by (simp add: sigmoid_def)
lemma softmax_0: "softmax_row [0, 0, 0] = [1 / 3, 1 / 3, 1 / 3]" by (simp add: softmax_row_def)

lemma toy_pop:
  assumes "st_encoder_outputs st = [[[1], [1]]]" "st_decoder_hidden st = [[0]]" "st_decoder_context st = [[0]]"
    "st_coverage st = None"
  shows "prepare_output_projections toy_model toy_modules lp st =
     Inr ([[0, 0, 0]], st\<lparr>st_decoder_input := [[1, 0]], st_decoder_hidden := [[0]], st_decoder_context := [[0]],
       st_attn_scores := [[2 / 3, 1 / 3]], st_attn_context := [[1]]\<rparr>)"
  using assms
  by (simp add: prepare_output_projections_def toy_model_def toy_modules_def toy_attention_def Let_def
      weighted_sum_row_def width_def)

lemma toy_fd:
  assumes "st_attn_scores st = [[2 / 3, 1 / 3]]" "st_tokens st = [[1, 2]]" "st_extra_zeros st = [[]]"
    "st_decoder_hidden st = [[0]]" "st_decoder_context st = [[0]]"
  shows "get_final_dist toy_model toy_modules st [[0, 0, 0]] = Inr [[1 / 6, 1 / 2, 1 / 3]]"
  using assms
  by (simp add: get_final_dist_def toy_modules_def Let_def sigmoid_0 softmax_0 width_def)

lemma forward_step_appends:
  assumes "forward_step m mods rand targets t lv = Inr lv'"
  shows "\<exists>p fd. lv_step_predictions lv' = lv_step_predictions lv @ [p] \<and>
                lv_step_proba lv' = lv_step_proba lv @ [fd]"
  using assms unfolding forward_step_def
  by (auto simp: Let_def split: sum.splits if_splits option.splits prod.splits)

lemma forward_steps_length:
  "forward_steps m mods rand targets ts lv = Inr lv' \<Longrightarrow>
   length (lv_step_predictions lv') = length (lv_step_predictions lv) + length ts \<and>
   length (lv_step_proba lv') = length (lv_step_proba lv) + length ts"
proof (induction ts arbitrary: lv)
  case Nil
  then show ?case by simp
next
  case (Cons t ts)
  from Cons.prems obtain lv1 where s: "forward_step m mods rand targets t lv = Inr lv1"
    and r: "forward_steps m mods rand targets ts lv1 = Inr lv'"
    by (auto split: sum.splits)
  from forward_step_appends[OF s] Cons.IH[OF r] show ?case by auto
qed

lemma cat_predictions_rows:
  assumes "cat_predictions sp = Inr preds"
  shows "sp \<noteq> [] \<and> (\<forall>row\<in>set preds. length row = length sp)"
  using assms by (auto simp: cat_predictions_def split: list.splits)


lemma argmax_toy: "argmax_row [1 / 6, 1 / 2, 1 / 3] = Inr 1"
  by (simp add: argmax_row_def)

lemma toy_step:
  assumes inv: "toy_inv (lv_state lv)"
    and inp: "targets = None \<or> (\<exists>tg. targets = Some tg \<and> t < width tg)"
  shows "\<exists>lv'. forward_step toy_model toy_modules rand targets t lv = Inr lv' \<and>
           toy_inv (lv_state lv') \<and>
           st_target_tokens (lv_state lv') = st_target_tokens (lv_state lv) \<and>
           lv_step_predictions lv' = lv_step_predictions lv @ [[1]] \<and>
           lv_step_proba lv' = lv_step_proba lv @ [[[1 / 6, 1 / 2, 1 / 3]]]"
proof -
  let ?st = "lv_state lv"
  let ?st' = "?st\<lparr>st_decoder_input := [[1, 0]], st_decoder_hidden := [[0]], st_decoder_context := [[0]],
       st_attn_scores := [[2 / 3, 1 / 3]], st_attn_context := [[1]]\<rparr>"
  have pop: "prepare_output_projections toy_model toy_modules lp ?st = Inr ([[0, 0, 0]], ?st')" for lp
    using inv by (intro toy_pop) (simp_all add: toy_inv_def)
  have fd: "get_final_dist toy_model toy_modules ?st' [[0, 0, 0]] = Inr [[1 / 6, 1 / 2, 1 / 3]]"
    using inv by (intro toy_fd) (simp_all add: toy_inv_def)
  have flags: "\<not> training toy_model" "\<not> use_coverage toy_model" by (simp_all add: toy_model_def)
  have "forward_step toy_model toy_modules rand targets t lv =
      Inr \<lparr>lv_state = ?st', lv_last_predictions = [1],
           lv_step_proba = lv_step_proba lv @ [[[1 / 6, 1 / 2, 1 / 3]]],
           lv_step_predictions = lv_step_predictions lv @ [[1]],
           lv_coverage_loss = lv_coverage_loss lv\<rparr>"
    using inp unfolding forward_step_def
    by (auto simp: flags pop fd argmax_toy)
  then show ?thesis using inv by (simp add: toy_inv_def)
qed

lemma toy_steps:
  assumes "toy_inv (lv_state lv)"
    and "targets = None \<or> (\<exists>tg. targets = Some tg \<and> (\<forall>t\<in>set ts. t < width tg))"
  shows "\<exists>lv'. forward_steps toy_model toy_modules rand targets ts lv = Inr lv' \<and>
           st_target_tokens (lv_state lv') = st_target_tokens (lv_state lv) \<and>
           lv_step_predictions lv' = lv_step_predictions lv @ replicate (length ts) [1] \<and>
           lv_step_proba lv' = lv_step_proba lv @ replicate (length ts) [[1 / 6, 1 / 2, 1 / 3]]"
  using assms
proof (induction ts arbitrary: lv)
  case Nil
  then show ?case by simp
next
  case (Cons t ts)
  have inp: "targets = None \<or> (\<exists>tg. targets = Some tg \<and> t < width tg)"
    using Cons.prems(2) by auto
  from toy_step[OF Cons.prems(1) inp, of rand] obtain lv1 where
    s: "forward_step toy_model toy_modules rand targets t lv = Inr lv1"
    and i1: "toy_inv (lv_state lv1)"
    and t1: "st_target_tokens (lv_state lv1) = st_target_tokens (lv_state lv)"
    and p1: "lv_step_predictions lv1 = lv_step_predictions lv @ [[1]]"
    and q1: "lv_step_proba lv1 = lv_step_proba lv @ [[[1 / 6, 1 / 2, 1 / 3]]]"
    by blast
  have rest: "targets = None \<or> (\<exists>tg. targets = Some tg \<and> (\<forall>t\<in>set ts. t < width tg))"
    using Cons.prems(2) by auto
  from Cons.IH[OF i1 rest] obtain lv' where
    r: "forward_steps toy_model toy_modules rand targets ts lv1 = Inr lv'"
    and t2: "st_target_tokens (lv_state lv') = st_target_tokens (lv_state lv1)"
    and p2: "lv_step_predictions lv' = lv_step_predictions lv1 @ replicate (length ts) [1]"
    and q2: "lv_step_proba lv' = lv_step_proba lv1 @ replicate (length ts) [[1 / 6, 1 / 2, 1 / 3]]"
    by blast
  show ?case using s r t1 t2 p1 p2 q1 q2 by simp
qed

lemma toy_state_inv: "toy_inv toy_state"
  by (simp add: toy_inv_def toy_state_def)


lemma replicate_6: "replicate 6 x = [x, x, x, x, x, x]"
  by (simp add: eval_nat_numeral)

lemma toy_loss_6:
  "\<exists>loss. get_loss (stack_proba 1 (replicate 6 [[1 / 6, 1 / 2, 1 / 3]])) toy_targets e = Inr loss"
  by (simp add: replicate_6 get_loss_def stack_proba_def width_def toy_targets_def nll_loss_def
      nll_term_def enumerate_eq_zip upt_rec Let_def)


text \<open>
  Claim C6, as the code has it. A run of \<^verbatim>\<open>_forward_loop\<close> that returns has made
  exactly \<^verbatim>\<open>num_decoding_steps\<close> steps, one predicted index for each example at each
  step, whatever indices were predicted: without targets that number is
  \<^verbatim>\<open>max_decoding_steps\<close>, with targets it is the target length less one, whatever
  \<^verbatim>\<open>max_decoding_steps\<close> is. The loop has no other way out than an error.
\<close>

theorem forward_loop_number_of_steps:
  assumes "forward_loop m mods rand state targets = Inr out"
  shows "0 < num_decoding_steps m targets
       \<and> (\<forall>row\<in>set (out_predictions out). int (length row) = num_decoding_steps m targets)
       \<and> (targets = None \<longrightarrow> num_decoding_steps m targets = max_decoding_steps m)
       \<and> (\<forall>tg. targets = Some tg \<longrightarrow> num_decoding_steps m targets = int (width tg) - 1)"
proof -
  from assms obtain r where r: "forward_loop_parts m mods rand state targets = Inr r"
    and o: "out_predictions out = res_predictions r"
    by (auto simp: forward_loop_def split: sum.splits option.splits if_splits prod.splits)
  let ?n = "num_decoding_steps m targets"
  from r obtain lv where
    st: "forward_steps m mods rand targets [0..<nat ?n]
           \<lparr>lv_state = state, lv_last_predictions = replicate (length (st_source_mask state)) (start_index m),
            lv_step_proba = [], lv_step_predictions = [], lv_coverage_loss = None\<rparr> = Inr lv"
    and cp: "cat_predictions (lv_step_predictions lv) = Inr (res_predictions r)"
    unfolding forward_loop_parts_def Let_def
    by (auto split: sum.splits option.splits if_splits)
  from forward_steps_length[OF st] have len: "length (lv_step_predictions lv) = nat ?n" by simp
  from cat_predictions_rows[OF cp] have ne: "lv_step_predictions lv \<noteq> []"
    and rows: "\<forall>row\<in>set (res_predictions r). length row = length (lv_step_predictions lv)"
    by simp_all
  from ne len have pos: "0 < ?n" by (cases "0 < ?n") auto
  from rows len pos have "\<forall>row\<in>set (res_predictions r). int (length row) = ?n" by simp
  then show ?thesis using o pos by (auto simp: num_decoding_steps_def)
qed

text \<open>The theorem at the small network without targets and with \<^verbatim>\<open>max_decoding_steps = 5\<close>:
  five predicted indices.\<close>

theorem forward_loop_number_of_steps_witness:
  "forward_loop toy_model toy_modules (\<lambda>_. 0) toy_state None =
     Inr \<lparr>out_predictions = [[1, 1, 1, 1, 1]], out_loss = None\<rparr>
   \<and> max_decoding_steps toy_model = 5
   \<and> int (length [1, 1, 1, 1, 1 :: int]) = num_decoding_steps toy_model None"
proof -
  let ?lv0 = "\<lparr>lv_state = toy_state, lv_last_predictions = replicate 1 (start_index toy_model),
            lv_step_proba = [], lv_step_predictions = [], lv_coverage_loss = None\<rparr>"
  have n: "num_decoding_steps toy_model None = 5" by (simp add: num_decoding_steps_def toy_model_def)
  have bs: "length (st_source_mask toy_state) = 1" by (simp add: toy_state_def)
  from toy_steps[of ?lv0 None "[0..<nat 5]" "\<lambda>_. 0"] toy_state_inv obtain lv where
    st: "forward_steps toy_model toy_modules (\<lambda>_. 0) None [0..<nat 5] ?lv0 = Inr lv"
    and p: "lv_step_predictions lv = replicate 5 [1]"
    by auto
  have cp: "cat_predictions (replicate 5 [1]) = Inr [[1, 1, 1, 1, 1]]" by code_simp
  have parts: "forward_loop_parts toy_model toy_modules (\<lambda>_. 0) toy_state None =
      Inr \<lparr>res_predictions = [[1, 1, 1, 1, 1]], res_primary_loss = None, res_coverage_term = None\<rparr>"
    unfolding forward_loop_parts_def Let_def n bs st by (simp add: p cp)
  have run: "forward_loop toy_model toy_modules (\<lambda>_. 0) toy_state None =
     Inr \<lparr>out_predictions = [[1, 1, 1, 1, 1]], out_loss = None\<rparr>"
    by (simp add: forward_loop_def parts)
  from forward_loop_number_of_steps[OF run] run n show ?thesis
    by (simp add: toy_model_def)
qed

text \<open>
  Claim C6 as stated fails with targets: the small network with \<^verbatim>\<open>max_decoding_steps = 5\<close>
  and targets of length 7 makes six steps.
\<close>

theorem forward_loop_exceeds_max_decoding_steps_counterexample:
  "map_sum id out_predictions
      (forward_loop toy_model toy_modules (\<lambda>_. 0) toy_state_targets (Some toy_targets)) =
     Inr [[1, 1, 1, 1, 1, 1]]
   \<and> max_decoding_steps toy_model = 5
   \<and> \<not> int (length [1, 1, 1, 1, 1, 1 :: int]) \<le> max_decoding_steps toy_model"
proof -
  let ?lv0 = "\<lparr>lv_state = toy_state_targets,
            lv_last_predictions = replicate 1 (start_index toy_model),
            lv_step_proba = [], lv_step_predictions = [], lv_coverage_loss = None\<rparr>"
  have n: "num_decoding_steps toy_model (Some toy_targets) = 6"
    by (simp add: num_decoding_steps_def toy_targets_def width_def)
  have inv: "toy_inv (lv_state ?lv0)"
    using toy_state_inv by (simp add: toy_inv_def toy_state_targets_def)
  have rng: "Some toy_targets = None \<or>
      (\<exists>tg. Some toy_targets = Some tg \<and> (\<forall>t\<in>set [0..<nat 6]. t < width tg))"
    by (simp add: toy_targets_def width_def)
  have uc: "\<not> use_coverage toy_model" by (simp add: toy_model_def)
  have bs: "length (st_source_mask toy_state_targets) = 1"
    by (simp add: toy_state_targets_def toy_state_def)
  from toy_steps[OF inv rng, of "\<lambda>_. 0"] obtain lv where
    st: "forward_steps toy_model toy_modules (\<lambda>_. 0) (Some toy_targets) [0..<nat 6] ?lv0 = Inr lv"
    and tt: "st_target_tokens (lv_state lv) = Some toy_targets"
    and p: "lv_step_predictions lv = replicate 6 [1]"
    and q: "lv_step_proba lv = replicate 6 [[1 / 6, 1 / 2, 1 / 3]]"
    by (auto simp: toy_state_targets_def)
  have cp: "cat_predictions (replicate 6 [1]) = Inr [[1, 1, 1, 1, 1, 1]]" by code_simp
  obtain loss where l: "get_loss (stack_proba (Suc 0) (replicate 6 [[1 / 6, 1 / 2, 1 / 3]])) toy_targets
      (eps toy_model) = Inr loss"
    using toy_loss_6[of "eps toy_model"] by auto
  have parts: "forward_loop_parts toy_model toy_modules (\<lambda>_. 0) toy_state_targets (Some toy_targets) =
      Inr \<lparr>res_predictions = [[1, 1, 1, 1, 1, 1]], res_primary_loss = Some loss, res_coverage_term = None\<rparr>"
    unfolding forward_loop_parts_def Let_def n bs st
    by (simp add: p q tt cp l uc)
  have "forward_loop toy_model toy_modules (\<lambda>_. 0) toy_state_targets (Some toy_targets) =
     Inr \<lparr>out_predictions = [[1, 1, 1, 1, 1, 1]], out_loss = Some loss\<rparr>"
    by (simp add: forward_loop_def parts uc)
  then show ?thesis by (simp add: toy_model_def)
qed

section \<open>Coverage and the loss\<close>







































section \<open>Properties of the evaluation loop\<close>

lemma strip_empty_placeholder: "strip (str ''empty'') = str ''empty''"
  by (simp add: strip_def str_def isspace_def)

text \<open>
  With a single reference, lines 66 to 71: whatever the decoded words and the target string
  are, the hypothesis and the reference that are appended have more than one character after
  stripping; a hypothesis or target that has at most one is replaced by "empty".
\<close>

lemma single_ref_pair_placeholder:
  assumes "single_ref_pair is_subwords decoded_words (TargetStr t) = Inr (hyp, refs)"
  shows "1 < length (strip hyp) \<and> (\<exists>r. refs = [r] \<and> 1 < length (strip r))
       \<and> (length (strip t) \<le> 1 \<longrightarrow> refs = [str ''empty''])"
proof -
  have five: "length (strip (str ''empty'')) = 5"
    unfolding strip_empty_placeholder by (simp add: str_def)
  have "1 < length (strip (if length (strip h) \<le> 1 then str ''empty'' else h))" for h
    using five by (cases "length (strip h) \<le> 1") simp_all
  then show ?thesis
    using assms five by (auto simp: single_ref_pair_def Let_def)
qed


text \<open>
  Claim C8 fails with several references (\<^verbatim>\<open>--is-multiple-ref\<close>): for an example without
  decoded words and with an empty target string, lines 74 to 84 append the empty hypothesis
  and the empty reference as they are, and the empty hypothesis also when the target has two
  sentences. The branch for a single reference, lines 65 to 72,
  appends the placeholder "empty" for both on the same example.
\<close>

theorem evaluate_multiple_ref_keeps_empty_strings:
  "evaluate_batch True False None [([], TargetStr (str ''''))] ([], []) =
     Inr ([str ''''], [[str '''']])
   \<and> evaluate_batch True False None [([], TargetStr (str ''a s_s b''))] ([], []) =
     Inr ([str ''''], [[str ''a b'']])
   \<and> evaluate_batch False False None [([], TargetStr (str ''''))] ([], []) =
     Inr ([str ''empty''], [[str ''empty'']])"
proof -
  have a: "evaluate_batch True False None [([], TargetStr (str ''''))] ([], []) =
     Inr ([str ''''], [[str '''']])"
    by code_simp
  have b: "evaluate_batch True False None [([], TargetStr (str ''a s_s b''))] ([], []) =
     Inr ([str ''''], [[str ''a b'']])"
    by (simp add: evaluate_pair_def multiple_ref_pair_def split_def str_def escape_sentence_def
        strip_def isspace_def)
  have c: "evaluate_batch False False None [([], TargetStr (str ''''))] ([], []) =
     Inr ([str ''empty''], [[str ''empty'']])"
    by code_simp
  from a b c show ?thesis by blast
qed

end
